theory Spec2Isabelle
  imports Main "HOL-Library.AList"
begin

section \<open>Reviewer selection of policy-bot (policy/reviewer/reviewer.go)\<close>

subsection \<open>Data model\<close>

text \<open>
  Modelled from the spec: the declarations of the packages \<^verbatim>\<open>common\<close> and
  \<^verbatim>\<open>pull\<close> (\<^verbatim>\<open>EvaluationStatus\<close>, \<^verbatim>\<open>AdminScope\<close>, the permission constants,
  \<^verbatim>\<open>ReviewRequestRule\<close>, \<^verbatim>\<open>Result\<close> and the interface \<^verbatim>\<open>pull.Context\<close>) are
  not among the sources. The types below follow sections 3 and 6 of the specification
  and have the fields and methods that reviewer.go reads and calls. The functions of
  reviewer.go themselves are translated from the source.

  A Go \<^verbatim>\<open>error\<close> is a message, possibly wrapping another error
  (\<^verbatim>\<open>errors.Wrap\<close>); \<^verbatim>\<open>nil\<close> is \<open>None\<close> of \<open>error option\<close>.
  A Go function returning \<^verbatim>\<open>([]string, error)\<close> returns a pair; the nil slice
  is \<open>[]\<close>.
\<close>

datatype error = Error string | Wrap error string

type_synonym 'a with_err = "'a \<times> error option"

datatype EvaluationStatus = StatusSkipped | StatusPending | StatusApproved | StatusDisapproved

text \<open>
  \<^verbatim>\<open>common.AdminScope\<close> is a string type with three named values; any other
  string is \<open>AdminScopeOther\<close>.
\<close>

datatype AdminScope = AdminScopeUser | AdminScopeTeam | AdminScopeOrg | AdminScopeOther string

definition GithubAdminPermission :: string where
  "GithubAdminPermission = ''admin''"

definition GithubWritePermission :: string where
  "GithubWritePermission = ''write''"

record ReviewRequestRule =
  Users :: "string list"
  Teams :: "string list"
  Organizations :: "string list"
  Admins :: bool
  AdminScope :: AdminScope
  WriteCollaborators :: bool
  RequiredCount :: int

text \<open>
  \<^verbatim>\<open>common.Result\<close>: \<^verbatim>\<open>Children\<close> is a slice of pointers, a nil pointer is
  \<open>None\<close>. The field \<^verbatim>\<open>Error\<close> is \<open>Err\<close> here.
\<close>

datatype Result =
  Result (Status: EvaluationStatus) (Err: "error option")
    (ReviewRequestRule: ReviewRequestRule) (Children: "Result option list")

text \<open>
  \<^verbatim>\<open>pull.Context\<close>: the lookups reviewer.go calls, each with the value and the
  error it returns. A Go map from the directory (\<^verbatim>\<open>map[string]string\<close>) is an
  association list read with \<open>map_of\<close>. The method \<^verbatim>\<open>Teams()\<close> is \<open>TeamsOf\<close> here,
  \<open>Teams\<close> being the field of the rule.
\<close>

record Context =
  Author :: string
  RepositoryOwner :: string
  RepositoryName :: string
  DirectRepositoryCollaborators :: "(string \<times> string) list with_err"
  RepositoryCollaborators :: "(string \<times> string) list with_err"
  TeamsOf :: "(string \<times> string) list with_err"
  TeamMembers :: "string \<Rightarrow> string list with_err"
  OrganizationMembers :: "string \<Rightarrow> string list with_err"
  OrganizationOwners :: "string \<Rightarrow> string list with_err"

subsection \<open>The leaf collector\<close>

text \<open>
  \<^verbatim>\<open>findLeafChildren\<close>, lines 29-46. The loop over the children appends to
  \<^verbatim>\<open>r\<close>, which starts as the nil slice.
\<close>

fun findLeafChildren :: "Result \<Rightarrow> Result list" where
  "findLeafChildren (Result st err rule cs) =
     (if length cs = 0 then
        (if st = StatusPending \<and> err = None then [Result st err rule cs] else [])
      else
        foldl (\<lambda>r c. case c of
                 None \<Rightarrow> r
               | Some c' \<Rightarrow> if Status c' = StatusPending then r @ findLeafChildren c' else r)
          [] cs)"

subsection \<open>Panics, the random generator and Go maps\<close>

text \<open>
  A Go panic is a value of the model: \<^verbatim>\<open>rand.Intn\<close> panics on an argument
  \<open>\<le> 0\<close>, a slice read panics out of range, and \<^verbatim>\<open>selectRandomUsers\<close> panics
  itself (line 65) with the two numbers of its message.
\<close>

datatype panic = IntnInvalidArgument | IndexOutOfRange | UnableToSelect int nat

datatype 'a res = Ret 'a | Panic panic

text \<open>
  \<^verbatim>\<open>*rand.Rand\<close>: the generator is the sequence \<open>src\<close> of its raw values and the
  number \<open>pos\<close> of draws made so far. \<^verbatim>\<open>Intn(n)\<close> is only ever called with a
  length, so its argument is a \<open>nat\<close>.
\<close>

record Rand =
  src :: "nat \<Rightarrow> nat"
  pos :: nat

definition Intn :: "nat \<Rightarrow> Rand \<Rightarrow> nat res \<times> Rand" where
  "Intn n r =
     (if n = 0 then (Panic IntnInvalidArgument, r)
      else (Ret (src r (pos r) mod n), r\<lparr>pos := pos r + 1\<rparr>))"

definition index :: "string list \<Rightarrow> nat \<Rightarrow> string res" where
  "index xs m = (if m < length xs then Ret (xs ! m) else Panic IndexOutOfRange)"

text \<open>
  Go iterates over a map in an unspecified order, chosen afresh for every \<^verbatim>\<open>range\<close>.
  An \<open>order\<close> is the order of one range: it proposes an order of the keys, and a
  proposal that is not a permutation of the keys is ignored. \<open>rangeKeys\<close> is
  \<^verbatim>\<open>for k := range m\<close> for a set of keys, \<open>rangeMap\<close> is
  \<^verbatim>\<open>for k, v := range m\<close> for an association list. A call of
  \<^verbatim>\<open>FindRandomRequesters\<close> ranges over maps at three places for each leaf (lines
  199, 112 or 128, and 224), so it takes a sequence \<open>orders\<close> of orders, one for each
  place of each leaf: the first leaf has the orders 0, 1 and 2, the next leaf the orders
  3, 4 and 5, and so on.
\<close>

type_synonym order = "string list \<Rightarrow> string list"

type_synonym orders = "nat \<Rightarrow> order"

definition rangeKeys :: "order \<Rightarrow> string list \<Rightarrow> string list" where
  "rangeKeys ord ks = (let p = ord ks in if distinct p \<and> set p = set ks then p else ks)"

definition rangeMap :: "order \<Rightarrow> (string \<times> string) list \<Rightarrow> (string \<times> string) list" where
  "rangeMap ord m =
     List.map_filter (\<lambda>k. map_option (Pair k) (map_of m k))
       (rangeKeys ord (remdups (map fst m)))"

subsection \<open>The random sampler\<close>

text \<open>
  \<^verbatim>\<open>selectRandomUsers\<close>, lines 49-77. \<open>selectRandomUsers_inner\<close> is the inner
  \<^verbatim>\<open>for { ... }\<close> of lines 61-74 with its counter \<open>j\<close>, \<open>selectRandomUsers_loop\<close>
  the loop over \<open>i\<close> of lines 59-75; \<^verbatim>\<open>selected\<close> (a \<^verbatim>\<open>map[int]bool\<close>) is the set
  of the indices mapped to true. \<open>n\<close> is a Go \<^verbatim>\<open>int\<close>; \<open>n * 5\<close> is computed only
  when \<open>0 < n < len(users)\<close>, where it cannot overflow 64 bits for a slice that fits
  in memory, so \<open>n\<close> is an \<open>int\<close> here.
\<close>

function selectRandomUsers_inner ::
  "int \<Rightarrow> string list \<Rightarrow> nat set \<Rightarrow> string list \<Rightarrow> int \<Rightarrow> Rand
    \<Rightarrow> (nat set \<times> string list) res \<times> Rand" where
  "selectRandomUsers_inner n users selected selections j r =
     (if j > n * 5 then (Panic (UnableToSelect n (length users)), r)
      else
        (case Intn (length users) r of
           (Panic p, r') \<Rightarrow> (Panic p, r')
         | (Ret m, r') \<Rightarrow>
             if m \<notin> selected then
               (case index users m of
                  Panic p \<Rightarrow> (Panic p, r')
                | Ret u \<Rightarrow> (Ret (insert m selected, selections @ [u]), r'))
             else selectRandomUsers_inner n users selected selections (j + 1) r'))"
  by pat_completeness auto
termination
  by (relation "measure (\<lambda>(n, users, selected, selections, j, r). nat (n * 5 + 1 - j))") auto

function selectRandomUsers_loop ::
  "int \<Rightarrow> string list \<Rightarrow> int \<Rightarrow> nat set \<Rightarrow> string list \<Rightarrow> Rand
    \<Rightarrow> string list res \<times> Rand" where
  "selectRandomUsers_loop n users i selected selections r =
     (if i < n then
        (case selectRandomUsers_inner n users selected selections 0 r of
           (Panic p, r') \<Rightarrow> (Panic p, r')
         | (Ret (selected', selections'), r') \<Rightarrow>
             selectRandomUsers_loop n users (i + 1) selected' selections' r')
      else (Ret selections, r))"
  by pat_completeness auto
termination
  by (relation "measure (\<lambda>(n, users, i, selected, selections, r). nat (n - i))") auto

definition selectRandomUsers :: "int \<Rightarrow> string list \<Rightarrow> Rand \<Rightarrow> string list res \<times> Rand" where
  "selectRandomUsers n users r =
     (if n = 0 then (Ret [], r)
      else if n \<ge> int (length users) then (Ret users, r)
      else selectRandomUsers_loop n users 0 {} [] r)"

subsection \<open>Team, organization and admin lookups\<close>

text \<open>\<^verbatim>\<open>selectTeamMembers\<close>, lines 79-86, and \<^verbatim>\<open>selectOrgMembers\<close>, lines 88-95.\<close>

definition selectTeamMembers ::
  "Context \<Rightarrow> string list \<Rightarrow> Rand \<Rightarrow> string list with_err res \<times> Rand" where
  "selectTeamMembers prctx allTeams r =
     (case Intn (length allTeams) r of
        (Panic p, r') \<Rightarrow> (Panic p, r')
      | (Ret k, r') \<Rightarrow>
          (case index allTeams k of
             Panic p \<Rightarrow> (Panic p, r')
           | Ret randomTeam \<Rightarrow>
               (case TeamMembers prctx randomTeam of
                  (teamMembers, Some err) \<Rightarrow>
                    (Ret ([], Some (Wrap err (''failed to get member listing for team '' @ randomTeam))), r')
                | (teamMembers, None) \<Rightarrow> (Ret (teamMembers, None), r'))))"

definition selectOrgMembers ::
  "Context \<Rightarrow> string list \<Rightarrow> Rand \<Rightarrow> string list with_err res \<times> Rand" where
  "selectOrgMembers prctx allOrgs r =
     (case Intn (length allOrgs) r of
        (Panic p, r') \<Rightarrow> (Panic p, r')
      | (Ret k, r') \<Rightarrow>
          (case index allOrgs k of
             Panic p \<Rightarrow> (Panic p, r')
           | Ret randomOrg \<Rightarrow>
               (case OrganizationMembers prctx randomOrg of
                  (orgMembers, Some err) \<Rightarrow>
                    (Ret ([], Some (Wrap err (''failed to get member listing for org '' @ randomOrg))), r')
                | (orgMembers, None) \<Rightarrow> (Ret (orgMembers, None), r'))))"

text \<open>
  \<^verbatim>\<open>selectAdmins\<close>, lines 97-154. It takes the generator but never draws from it,
  and logs at debug level only (debug messages are not modelled), so it returns its
  result alone. \<open>selectAdmins_teams\<close> is the loop of lines 128-137 over the teams of
  the repository, which returns from the function at the first failed lookup.
\<close>

fun selectAdmins_teams ::
  "Context \<Rightarrow> (string \<times> string) list \<Rightarrow> string list \<Rightarrow> string list with_err" where
  "selectAdmins_teams prctx [] adminUsers = (adminUsers, None)"
| "selectAdmins_teams prctx ((team, perm) # rest) adminUsers =
     (if perm = GithubAdminPermission then
        (let fullTeamName = RepositoryOwner prctx @ ''/'' @ team in
         case TeamMembers prctx fullTeamName of
           (admins, Some err) \<Rightarrow>
             ([], Some (Wrap err (''Unable to get list of members for '' @ team)))
         | (admins, None) \<Rightarrow> selectAdmins_teams prctx rest (adminUsers @ admins))
      else selectAdmins_teams prctx rest adminUsers)"

definition selectAdmins :: "order \<Rightarrow> Context \<Rightarrow> AdminScope \<Rightarrow> string list with_err" where
  "selectAdmins ord prctx adminScope =
     (case adminScope of
        AdminScopeUser \<Rightarrow>
          (case DirectRepositoryCollaborators prctx of
             (directCollaborators, Some err) \<Rightarrow>
               ([], Some (Wrap err (''Unable to get list of direct collaborators on ''
                                      @ RepositoryName prctx)))
           | (directCollaborators, None) \<Rightarrow>
               (let repoAdmins =
                      foldl (\<lambda>acc (user, perm).
                               if perm = GithubAdminPermission then acc @ [user] else acc)
                        [] (rangeMap ord directCollaborators)
                in ([] @ repoAdmins, None)))
      | AdminScopeTeam \<Rightarrow>
          (case TeamsOf prctx of
             (teams, Some err) \<Rightarrow>
               ([], Some (Wrap err ''Unable to get list of teams collaborators''))
           | (teams, None) \<Rightarrow> selectAdmins_teams prctx (rangeMap ord teams) [])
      | AdminScopeOrg \<Rightarrow>
          (case OrganizationOwners prctx (RepositoryOwner prctx) of
             (orgOwners, Some err) \<Rightarrow>
               ([], Some (Wrap err (''Unable to get list of org owners for ''
                                      @ RepositoryOwner prctx)))
           | (orgOwners, None) \<Rightarrow> (foldl (\<lambda>acc owner. acc @ [owner]) [] orgOwners, None))
      | AdminScopeOther s \<Rightarrow>
          ([], Some (Error (''Unknown AdminScope '' @ s @ '', ignoring''))))"

subsection \<open>The candidate aggregator and the top-level loop\<close>

text \<open>
  \<^verbatim>\<open>FindRandomRequesters\<close>, lines 156-239. The body of its loop over the pending
  leaves is cut into the steps below, in the order of the source. \<^verbatim>\<open>allUsers\<close>
  (a \<^verbatim>\<open>map[string]struct{}\<close>) is the list of its keys, without duplicates;
  \<^verbatim>\<open>collaboratorsToConsider\<close> is an association list. The logger of \<^verbatim>\<open>ctx\<close>
  is the list of the warnings written so far, each the error and the message.
\<close>

type_synonym log = "(error \<times> string) list"

text \<open>Lines 166-170: the explicit users of the rule.\<close>

definition collectUsers :: "ReviewRequestRule \<Rightarrow> string list \<Rightarrow> string list" where
  "collectUsers rule allUsers =
     (if length (Users rule) > 0 then foldl (\<lambda>s user. List.insert user s) allUsers (Users rule)
      else allUsers)"

text \<open>
  Lines 172-180: the members of one team. After a failed lookup the warning is logged
  and the loop of lines 177-179 still runs, over the nil slice.
\<close>

definition collectTeamMembers ::
  "Context \<Rightarrow> ReviewRequestRule \<Rightarrow> string list \<Rightarrow> Rand \<Rightarrow> log
    \<Rightarrow> string list res \<times> Rand \<times> log" where
  "collectTeamMembers prctx rule allUsers r lg =
     (if length (Teams rule) > 0 then
        (case selectTeamMembers prctx (Teams rule) r of
           (Panic p, r') \<Rightarrow> (Panic p, r', lg)
         | (Ret (teamMembers, err), r') \<Rightarrow>
             (Ret (foldl (\<lambda>s user. List.insert user s) allUsers teamMembers), r',
              (case err of
                 Some e \<Rightarrow>
                   lg @ [(e, ''Unable to get member listing for teams, skipping team member selection'')]
               | None \<Rightarrow> lg)))
      else (Ret allUsers, r, lg))"

text \<open>Lines 182-190: the members of one organization.\<close>

definition collectOrgMembers ::
  "Context \<Rightarrow> ReviewRequestRule \<Rightarrow> string list \<Rightarrow> Rand \<Rightarrow> log
    \<Rightarrow> string list res \<times> Rand \<times> log" where
  "collectOrgMembers prctx rule allUsers r lg =
     (if length (Organizations rule) > 0 then
        (case selectOrgMembers prctx (Organizations rule) r of
           (Panic p, r') \<Rightarrow> (Panic p, r', lg)
         | (Ret (orgMembers, err), r') \<Rightarrow>
             (Ret (foldl (\<lambda>s user. List.insert user s) allUsers orgMembers), r',
              (case err of
                 Some e \<Rightarrow>
                   lg @ [(e, ''Unable to get member listing for org, skipping org member selection'')]
               | None \<Rightarrow> lg)))
      else (Ret allUsers, r, lg))"

text \<open>Lines 198-204: the collaborators with write permission.\<close>

definition collectWriteCollaborators ::
  "order \<Rightarrow> ReviewRequestRule \<Rightarrow> (string \<times> string) list \<Rightarrow> string list \<Rightarrow> string list" where
  "collectWriteCollaborators ord rule allCollaborators allUsers =
     (if WriteCollaborators rule then
        foldl (\<lambda>s (user, perm). if perm = GithubWritePermission then List.insert user s else s)
          allUsers (rangeMap ord allCollaborators)
      else allUsers)"

text \<open>
  Lines 206-221: the collaborators to consider. The result is \<^verbatim>\<open>allUsers\<close> and
  \<^verbatim>\<open>collaboratorsToConsider\<close>, or the error the function returns with.
\<close>

definition collectAdmins ::
  "order \<Rightarrow> Context \<Rightarrow> ReviewRequestRule \<Rightarrow> (string \<times> string) list \<Rightarrow> string list
    \<Rightarrow> (string list \<times> (string \<times> string) list) with_err" where
  "collectAdmins ord prctx rule allCollaborators allUsers =
     (if \<not> Admins rule then ((allUsers, allCollaborators), None)
      else
        (case selectAdmins ord prctx (AdminScope rule) of
           (admins, Some err) \<Rightarrow> (([], []), Some (Wrap err ''Unable to select admins''))
         | (admins, None) \<Rightarrow>
             (foldl (\<lambda>(us, cs) admin.
                       (List.insert admin us, AList.update admin GithubAdminPermission cs))
                (allUsers, []) admins,
              None)))"

text \<open>Lines 223-231: the author and the users who are not collaborators are removed.\<close>

definition filterCandidates ::
  "order \<Rightarrow> Context \<Rightarrow> string list \<Rightarrow> (string \<times> string) list \<Rightarrow> string list" where
  "filterCandidates ord prctx allUsers collaboratorsToConsider =
     foldl (\<lambda>allUserList u.
              if u \<noteq> Author prctx \<and> map_of collaboratorsToConsider u \<noteq> None
              then allUserList @ [u] else allUserList)
       [] (rangeKeys ord allUsers)"

text \<open>
  Lines 164-231 for one leaf: \<^verbatim>\<open>allUserList\<close>, or the error with which
  \<^verbatim>\<open>FindRandomRequesters\<close> returns. The orders of the leaf are \<open>ords 0\<close> for the
  range over the collaborators (line 199), \<open>ords 1\<close> for the range in
  \<^verbatim>\<open>selectAdmins\<close> (line 112 or 128) and \<open>ords 2\<close> for the range over
  \<^verbatim>\<open>allUsers\<close> (line 224).
\<close>

definition candidatesForLeaf ::
  "orders \<Rightarrow> Context \<Rightarrow> Result \<Rightarrow> Rand \<Rightarrow> log \<Rightarrow> string list with_err res \<times> Rand \<times> log" where
  "candidatesForLeaf ords prctx child r lg =
     (let rule = ReviewRequestRule child in
      case collectTeamMembers prctx rule (collectUsers rule []) r lg of
        (Panic p, r1, lg1) \<Rightarrow> (Panic p, r1, lg1)
      | (Ret allUsers1, r1, lg1) \<Rightarrow>
      (case collectOrgMembers prctx rule allUsers1 r1 lg1 of
        (Panic p, r2, lg2) \<Rightarrow> (Panic p, r2, lg2)
      | (Ret allUsers2, r2, lg2) \<Rightarrow>
      (case RepositoryCollaborators prctx of
        (allCollaborators, Some err) \<Rightarrow>
          (Ret ([], Some (Wrap err ''Unable to list repository collaborators'')), r2, lg2)
      | (allCollaborators, None) \<Rightarrow>
      (case collectAdmins (ords 1) prctx rule allCollaborators
              (collectWriteCollaborators (ords 0) rule allCollaborators allUsers2) of
        (_, Some err) \<Rightarrow> (Ret ([], Some err), r2, lg2)
      | ((allUsers4, collaboratorsToConsider), None) \<Rightarrow>
          (Ret (filterCandidates (ords 2) prctx allUsers4 collaboratorsToConsider, None),
           r2, lg2)))))"

text \<open>
  The whole body of the loop, lines 164-235: the candidates, then line 234, the random
  selection among them.
\<close>

definition requestersForLeaf ::
  "orders \<Rightarrow> Context \<Rightarrow> Result \<Rightarrow> Rand \<Rightarrow> log \<Rightarrow> string list with_err res \<times> Rand \<times> log" where
  "requestersForLeaf ords prctx child r lg =
     (case candidatesForLeaf ords prctx child r lg of
        (Panic p, r1, lg1) \<Rightarrow> (Panic p, r1, lg1)
      | (Ret (allUserList, Some err), r1, lg1) \<Rightarrow> (Ret ([], Some err), r1, lg1)
      | (Ret (allUserList, None), r1, lg1) \<Rightarrow>
          (case selectRandomUsers (RequiredCount (ReviewRequestRule child)) allUserList r1 of
             (Panic p, r2) \<Rightarrow> (Panic p, r2, lg1)
           | (Ret randomSelection, r2) \<Rightarrow> (Ret (randomSelection, None), r2, lg1)))"

text \<open>
  The loop of lines 163-236 and the return of line 238. The leaves after the first one
  take the orders from \<open>ords 3\<close> on.
\<close>

fun FindRandomRequesters_loop ::
  "orders \<Rightarrow> Context \<Rightarrow> Result list \<Rightarrow> string list \<Rightarrow> Rand \<Rightarrow> log
    \<Rightarrow> string list with_err res \<times> Rand \<times> log" where
  "FindRandomRequesters_loop ords prctx [] requestedUsers r lg =
     (Ret (requestedUsers, None), r, lg)"
| "FindRandomRequesters_loop ords prctx (child # rest) requestedUsers r lg =
     (case requestersForLeaf ords prctx child r lg of
        (Panic p, r1, lg1) \<Rightarrow> (Panic p, r1, lg1)
      | (Ret (randomSelection, Some err), r1, lg1) \<Rightarrow> (Ret ([], Some err), r1, lg1)
      | (Ret (randomSelection, None), r1, lg1) \<Rightarrow>
          FindRandomRequesters_loop (\<lambda>k. ords (k + 3)) prctx rest
            (requestedUsers @ randomSelection) r1 lg1)"

definition FindRandomRequesters ::
  "orders \<Rightarrow> Context \<Rightarrow> Result \<Rightarrow> Rand \<Rightarrow> log \<Rightarrow> string list with_err res \<times> Rand \<times> log" where
  "FindRandomRequesters ords prctx result r lg =
     (let pendingLeafNodes = findLeafChildren result in
      FindRandomRequesters_loop ords prctx pendingLeafNodes [] r lg)"

subsection \<open>Reference definitions for the leaf collector\<close>

text \<open>
  \<open>walk\<close> lists every node of a tree, each with the list of its ancestors from the root
  down, in depth-first, left-to-right order; nil children are left out.
\<close>

fun walk :: "Result list \<Rightarrow> Result \<Rightarrow> (Result list \<times> Result) list" where
  "walk anc (Result st err rule cs) =
     (anc, Result st err rule cs) #
       concat (map (\<lambda>c. case c of
                          None \<Rightarrow> []
                        | Some c' \<Rightarrow> walk (anc @ [Result st err rule cs]) c') cs)"

text \<open>
  A reviewable leaf with only pending ancestors: a childless node that is pending and
  has no error, all of whose ancestors, the root included, are pending.
\<close>

definition allPending :: "Result list \<times> Result \<Rightarrow> bool" where
  "allPending = (\<lambda>(anc, n). Children n = [] \<and> Status n = StatusPending \<and> Err n = None
                   \<and> list_all (\<lambda>a. Status a = StatusPending) anc)"

definition reviewableLeaves :: "Result \<Rightarrow> Result list" where
  "reviewableLeaves root = map snd (filter allPending (walk [] root))"

text \<open>
  The same, but the status of the root itself is not looked at unless the root is the
  leaf: \<open>tl anc\<close> is the ancestors below the root.
\<close>

definition belowRootPending :: "Result list \<times> Result \<Rightarrow> bool" where
  "belowRootPending = (\<lambda>(anc, n). Children n = [] \<and> Status n = StatusPending \<and> Err n = None
                         \<and> list_all (\<lambda>a. Status a = StatusPending) (tl anc))"

definition reviewableLeavesBelowRoot :: "Result \<Rightarrow> Result list" where
  "reviewableLeavesBelowRoot root = map snd (filter belowRootPending (walk [] root))"

subsection \<open>The eligibility set of a leaf\<close>

text \<open>
  The logins that may be requested for a rule: the resolved admins when the rule asks for
  admins, the keys of the repository collaborator mapping otherwise.
\<close>

definition eligible :: "order \<Rightarrow> Context \<Rightarrow> ReviewRequestRule \<Rightarrow> string \<Rightarrow> bool" where
  "eligible ord prctx rule u =
     (if Admins rule then u \<in> set (fst (selectAdmins ord prctx (AdminScope rule)))
      else u \<in> fst ` set (fst (RepositoryCollaborators prctx)))"

subsection \<open>The team and the organization drawn for a rule\<close>

text \<open>
  The team at the index drawn from the generator \<open>r\<close> with which the team step starts,
  and the organization at the index drawn next: the organization step starts one draw
  later when the rule has teams. Both are read only for a list that is not empty.
\<close>

definition sampledTeam :: "ReviewRequestRule \<Rightarrow> Rand \<Rightarrow> string" where
  "sampledTeam rule r = Teams rule ! (src r (pos r) mod length (Teams rule))"

definition sampledOrg :: "ReviewRequestRule \<Rightarrow> Rand \<Rightarrow> string" where
  "sampledOrg rule r =
     Organizations rule !
       (src r (if Teams rule = [] then pos r else pos r + 1) mod length (Organizations rule))"

subsection \<open>The candidates of a leaf, source by source\<close>

text \<open>
  What each source of a rule contributes, for the generator \<open>r\<close> with which the leaf
  starts: the members of the one team drawn and of the one organization drawn (nothing
  when there is none to draw from, or when the lookup fails), the collaborators with
  write permission, and the resolved admins. The pool of a leaf is their union with the
  explicit users; the final candidates are the logins of the pool that are eligible and
  are not the author.
\<close>

definition sampledTeamMembers :: "Context \<Rightarrow> ReviewRequestRule \<Rightarrow> Rand \<Rightarrow> string set" where
  "sampledTeamMembers prctx rule r =
     (if Teams rule = [] then {}
      else case TeamMembers prctx (sampledTeam rule r) of
             (members, None) \<Rightarrow> set members
           | (members, Some e) \<Rightarrow> {})"

definition sampledOrgMembers :: "Context \<Rightarrow> ReviewRequestRule \<Rightarrow> Rand \<Rightarrow> string set" where
  "sampledOrgMembers prctx rule r =
     (if Organizations rule = [] then {}
      else case OrganizationMembers prctx (sampledOrg rule r) of
             (members, None) \<Rightarrow> set members
           | (members, Some e) \<Rightarrow> {})"

definition writers :: "Context \<Rightarrow> ReviewRequestRule \<Rightarrow> string set" where
  "writers prctx rule =
     (if WriteCollaborators rule
      then {u. map_of (fst (RepositoryCollaborators prctx)) u = Some GithubWritePermission}
      else {})"

definition resolvedAdmins :: "order \<Rightarrow> Context \<Rightarrow> ReviewRequestRule \<Rightarrow> string set" where
  "resolvedAdmins ord prctx rule =
     (if Admins rule then set (fst (selectAdmins ord prctx (AdminScope rule))) else {})"

definition candidatePool :: "order \<Rightarrow> Context \<Rightarrow> ReviewRequestRule \<Rightarrow> Rand \<Rightarrow> string set" where
  "candidatePool ord prctx rule r =
     set (Users rule) \<union> sampledTeamMembers prctx rule r \<union> sampledOrgMembers prctx rule r
       \<union> writers prctx rule \<union> resolvedAdmins ord prctx rule"

definition finalCandidates :: "order \<Rightarrow> Context \<Rightarrow> ReviewRequestRule \<Rightarrow> Rand \<Rightarrow> string set" where
  "finalCandidates ord prctx rule r =
     {u \<in> candidatePool ord prctx rule r. u \<noteq> Author prctx \<and> eligible ord prctx rule u}"

subsection \<open>Example inputs\<close>

definition usersRule :: "string list \<Rightarrow> int \<Rightarrow> ReviewRequestRule" where
  "usersRule us k =
     \<lparr>Users = us, Teams = [], Organizations = [], Admins = False, AdminScope = AdminScopeUser,
      WriteCollaborators = False, RequiredCount = k\<rparr>"

definition pendingLeaf :: "ReviewRequestRule \<Rightarrow> Result" where
  "pendingLeaf rule = Result StatusPending None rule []"

definition approvedRoot :: Result where
  "approvedRoot = Result StatusApproved None (usersRule [] 0) [Some (pendingLeaf (usersRule [''a''] 1))]"

definition constRand :: Rand where
  "constRand = \<lparr>src = (\<lambda>i. 0), pos = 0\<rparr>"

definition lateRand :: Rand where
  "lateRand = \<lparr>src = (\<lambda>i. if i = 11 then 1 else 0), pos = 0\<rparr>"

definition countRand :: Rand where
  "countRand = \<lparr>src = (\<lambda>i. i), pos = 0\<rparr>"

text \<open>
  A repository of organization \<open>o\<close> whose owners are \<open>x\<close> and \<open>y\<close>; \<open>x\<close> is the author
  of the pull request, \<open>z\<close> has write permission, and every team or organization
  membership lookup fails.
\<close>

definition orgContext :: Context where
  "orgContext =
     \<lparr>Author = ''x'', RepositoryOwner = ''o'', RepositoryName = ''repo'',
      DirectRepositoryCollaborators = ([(''z'', ''write'')], None),
      RepositoryCollaborators = ([(''x'', ''admin''), (''y'', ''admin''), (''z'', ''write'')], None),
      TeamsOf = ([], None),
      TeamMembers = (\<lambda>t. ([], Some (Error ''not found''))),
      OrganizationMembers = (\<lambda>t. ([], Some (Error ''not found''))),
      OrganizationOwners = (\<lambda>t. ([''x'', ''y''], None))\<rparr>"

definition adminsRule :: "AdminScope \<Rightarrow> ReviewRequestRule" where
  "adminsRule scope =
     \<lparr>Users = [''z''], Teams = [''o/t''], Organizations = [], Admins = True, AdminScope = scope,
      WriteCollaborators = True, RequiredCount = 5\<rparr>"

definition keyOrder :: order where
  "keyOrder = (\<lambda>ks. ks)"

text \<open>Every range in the order of the keys; and the same, but the third range reversed.\<close>

definition keyOrders :: orders where
  "keyOrders = (\<lambda>k. keyOrder)"

definition mixedOrders :: orders where
  "mixedOrders = (\<lambda>k. if k = 2 then rev else keyOrder)"

text \<open>
  The same repository with two teams and one organization that have members.
\<close>

definition teamContext :: Context where
  "teamContext =
     orgContext
       \<lparr>TeamMembers :=
          (\<lambda>t. if t = ''o/t1'' then ([''y''], None)
                else if t = ''o/t2'' then ([''z''], None)
                else ([], Some (Error ''not found''))),
        OrganizationMembers :=
          (\<lambda>t. if t = ''o'' then ([''x''], None) else ([], Some (Error ''not found'')))\<rparr>"

definition teamsRule :: ReviewRequestRule where
  "teamsRule =
     \<lparr>Users = [], Teams = [''o/t1'', ''o/t2''], Organizations = [''o''], Admins = False,
      AdminScope = AdminScopeUser, WriteCollaborators = False, RequiredCount = 1\<rparr>"

text \<open>A pending root with two pending leaves.\<close>

definition twoLeaves :: "ReviewRequestRule \<Rightarrow> ReviewRequestRule \<Rightarrow> Result" where
  "twoLeaves rule1 rule2 =
     Result StatusPending None (usersRule [] 0) [Some (pendingLeaf rule1), None, Some (pendingLeaf rule2)]"

text \<open>The repository when its collaborators cannot be listed.\<close>

definition noListingContext :: Context where
  "noListingContext = orgContext\<lparr>RepositoryCollaborators := ([], Some (Error ''unavailable''))\<rparr>"

section \<open>Properties\<close>

subsection \<open>The leaf collector\<close>

lemma foldl_append_acc: "foldl (\<lambda>r c. r @ f c) acc cs = acc @ concat (map f cs)"
  by (induction cs arbitrary: acc) auto

lemma findLeafChildren_concat:
  "findLeafChildren (Result st err rule cs) =
     (if cs = [] then (if st = StatusPending \<and> err = None then [Result st err rule cs] else [])
      else concat (map (\<lambda>c. case c of None \<Rightarrow> []
              | Some c' \<Rightarrow> if Status c' = StatusPending then findLeafChildren c' else []) cs))"
proof -
  have "(\<lambda>r c. case c of None \<Rightarrow> r
               | Some c' \<Rightarrow> if Status c' = StatusPending then r @ findLeafChildren c' else r)
      = (\<lambda>r c. r @ (case c of None \<Rightarrow> []
              | Some c' \<Rightarrow> if Status c' = StatusPending then findLeafChildren c' else []))"
    by (auto simp: fun_eq_iff split: option.splits)
  then show ?thesis
    by (simp add: foldl_append_acc)
qed

text \<open>Below a node, every entry of \<open>walk\<close> has the node among its ancestors.\<close>

lemma walk_ancestors:
  "(anc', m) \<in> set (walk anc n) \<Longrightarrow> (anc' = anc \<and> m = n) \<or> (\<exists>rest. anc' = anc @ n # rest)"
proof (induction anc n arbitrary: anc' m rule: walk.induct)
  case (1 anc st err rule cs)
  let ?n = "Result st err rule cs"
  show ?case
  proof (cases "(anc', m) = (anc, ?n)")
    case True
    then show ?thesis by simp
  next
    case False
    with "1.prems" obtain c' where c': "Some c' \<in> set cs"
      and mem: "(anc', m) \<in> set (walk (anc @ [?n]) c')"
      by (auto split: option.splits)
    from "1.IH" [OF c' refl mem]
    show ?thesis by auto
  qed
qed

text \<open>Nothing is reviewable in the subtree of a child that is not pending.\<close>

lemma walk_pruned:
  assumes "Status c \<noteq> StatusPending" and "anc \<noteq> []"
  shows "filter belowRootPending (walk anc c) = []"
proof -
  have "\<not> belowRootPending (anc', m)" if "(anc', m) \<in> set (walk anc c)" for anc' m
  proof -
    from walk_ancestors [OF that] show ?thesis
    proof
      assume "anc' = anc \<and> m = c"
      with assms show ?thesis by (simp add: belowRootPending_def)
    next
      assume "\<exists>rest. anc' = anc @ c # rest"
      then obtain rest where "anc' = anc @ c # rest" ..
      with assms show ?thesis by (simp add: belowRootPending_def)
    qed
  qed
  then show ?thesis
    by (auto simp: filter_empty_conv)
qed

lemma walk_findLeafChildren:
  "list_all (\<lambda>a. Status a = StatusPending) (tl anc) \<Longrightarrow> anc = [] \<or> Status n = StatusPending
    \<Longrightarrow> map snd (filter belowRootPending (walk anc n)) = findLeafChildren n"
proof (induction anc n rule: walk.induct)
  case (1 anc st err rule cs)
  let ?n = "Result st err rule cs"
  show ?case
  proof (cases "cs = []")
    case True
    with "1.prems" show ?thesis
      by (simp add: belowRootPending_def)
  next
    case False
    have below: "list_all (\<lambda>a. Status a = StatusPending) (tl (anc @ [?n]))"
      using "1.prems" by (cases anc) auto
    have child: "map snd (filter belowRootPending
                    (case c of None \<Rightarrow> [] | Some c' \<Rightarrow> walk (anc @ [?n]) c'))
        = (case c of None \<Rightarrow> []
           | Some c' \<Rightarrow> if Status c' = StatusPending then findLeafChildren c' else [])"
      if "c \<in> set cs" for c
    proof (cases c)
      case None
      then show ?thesis by simp
    next
      case (Some c')
      show ?thesis
      proof (cases "Status c' = StatusPending")
        case True
        with "1.IH" [of c c'] that Some below show ?thesis by simp
      next
        case False
        with walk_pruned [of c' "anc @ [?n]"] Some show ?thesis by simp
      qed
    qed
    have "map snd (filter belowRootPending (walk anc ?n))
        = concat (map (\<lambda>c. map snd (filter belowRootPending
                    (case c of None \<Rightarrow> [] | Some c' \<Rightarrow> walk (anc @ [?n]) c'))) cs)"
      using False by (simp add: belowRootPending_def filter_concat map_concat comp_def)
    also have "\<dots> = concat (map (\<lambda>c. case c of None \<Rightarrow> []
           | Some c' \<Rightarrow> if Status c' = StatusPending then findLeafChildren c' else []) cs)"
      using child by (simp cong: map_cong)
    also have "\<dots> = findLeafChildren ?n"
      using False by (simp only: findLeafChildren_concat if_False)
    finally show ?thesis .
  qed
qed

text \<open>
  C3, as stated: \<open>findLeafChildren\<close> returns the reviewable leaves all of whose ancestors
  are pending. It fails at a root that is approved and has a pending leaf as its child:
  the status of the root is never read when the root has children, and the leaf is
  returned.
\<close>

theorem findLeafChildren_root_not_pending:
  "findLeafChildren approvedRoot = [pendingLeaf (usersRule [''a''] 1)]
   \<and> reviewableLeaves approvedRoot = []"
  by (simp add: approvedRoot_def pendingLeaf_def reviewableLeaves_def allPending_def)

text \<open>
  C3, amended: for every result tree, \<open>findLeafChildren\<close> returns exactly the childless
  nodes that are pending and have no error and whose ancestors below the root are all
  pending (nil children skipped, subtrees of children that are not pending pruned), in
  depth-first, left-to-right order. The status of the root matters only when the root
  has no children.
\<close>

theorem findLeafChildren_below_root: "findLeafChildren root = reviewableLeavesBelowRoot root"
  using walk_findLeafChildren [of "[]" root]
  by (simp add: reviewableLeavesBelowRoot_def)

theorem findLeafChildren_below_root_witness:
  "findLeafChildren approvedRoot = [pendingLeaf (usersRule [''a''] 1)]
   \<and> reviewableLeavesBelowRoot approvedRoot = [pendingLeaf (usersRule [''a''] 1)]"
  using findLeafChildren_below_root [of approvedRoot]
  by (simp add: approvedRoot_def pendingLeaf_def)

subsection \<open>The random sampler\<close>

declare selectRandomUsers_inner.simps [simp del]
declare selectRandomUsers_loop.simps [simp del]

lemma inner_outcome:
  "selectRandomUsers_inner n users selected selections j r = (out, r') \<Longrightarrow> 0 < length users \<Longrightarrow>
     src r' = src r \<and> pos r \<le> pos r' \<and> pos r' \<le> pos r + nat (n * 5 + 1 - j) \<and>
     (out = Panic (UnableToSelect n (length users)) \<or>
      (\<exists>m. m < length users \<and> m \<notin> selected \<and>
           out = Ret (insert m selected, selections @ [users ! m])))"
proof (induction n users selected selections j r rule: selectRandomUsers_inner.induct)
  case (1 n users selected selections j r)
  show ?case
  proof (cases "j > n * 5")
    case True
    with "1.prems" show ?thesis
      by (simp add: selectRandomUsers_inner.simps)
  next
    case False
    let ?m = "src r (pos r) mod length users"
    let ?r1 = "r\<lparr>pos := pos r + 1\<rparr>"
    have draw: "Intn (length users) r = (Ret ?m, ?r1)"
      using "1.prems" by (simp add: Intn_def)
    have m: "?m < length users"
      using "1.prems" by simp
    show ?thesis
    proof (cases "?m \<in> selected")
      case True
      with False draw "1.prems"
      have rec: "selectRandomUsers_inner n users selected selections (j + 1) ?r1 = (out, r')"
        by (simp add: selectRandomUsers_inner.simps [of n users selected selections j r])
      from "1.IH" [OF False draw [symmetric] refl _ rec] True "1.prems"(2)
      have "src r' = src ?r1 \<and> pos ?r1 \<le> pos r' \<and> pos r' \<le> pos ?r1 + nat (n * 5 + 1 - (j + 1)) \<and>
         (out = Panic (UnableToSelect n (length users)) \<or>
          (\<exists>m. m < length users \<and> m \<notin> selected \<and>
           out = Ret (insert m selected, selections @ [users ! m])))"
        by simp
      with False show ?thesis by auto
    next
      case notin: False
      with False draw m "1.prems"
      have "out = Ret (insert ?m selected, selections @ [users ! ?m])" and "r' = ?r1"
        by (simp_all add: selectRandomUsers_inner.simps [of n users selected selections j r] index_def)
      with notin m False show ?thesis by auto
    qed
  qed
qed

lemma loop_outcome:
  "selectRandomUsers_loop n users i selected selections r = (out, r') \<Longrightarrow> 0 < length users \<Longrightarrow>
   selected = set js \<Longrightarrow> distinct js \<Longrightarrow> list_all (\<lambda>k. k < length users) js \<Longrightarrow>
   selections = map ((!) users) js \<Longrightarrow>
     src r' = src r \<and> pos r \<le> pos r' \<and> pos r' \<le> pos r + nat (n - i) * nat (n * 5 + 1) \<and>
     (out = Panic (UnableToSelect n (length users)) \<or>
      (\<exists>js'. out = Ret (map ((!) users) js') \<and> distinct js' \<and>
          list_all (\<lambda>k. k < length users) js' \<and> length js' = length js + nat (n - i)))"
proof (induction n users i selected selections r arbitrary: js rule: selectRandomUsers_loop.induct)
  case (1 n users i selected selections r)
  note run = "1.prems"(1) and nonempty = "1.prems"(2)
  show ?case
  proof (cases "i < n")
    case False
    with run have "out = Ret selections" and "r' = r"
      by (simp_all add: selectRandomUsers_loop.simps [of n users i selected selections r])
    with False "1.prems" show ?thesis by auto
  next
    case True
    obtain o1 r1 where inner: "selectRandomUsers_inner n users selected selections 0 r = (o1, r1)"
      by (cases "selectRandomUsers_inner n users selected selections 0 r")
    note io = inner_outcome [OF inner nonempty]
    have step: "nat (n - i) = Suc (nat (n - (i + 1)))"
      using True by simp
    from io have "o1 = Panic (UnableToSelect n (length users)) \<or>
      (\<exists>m. m < length users \<and> m \<notin> selected \<and>
           o1 = Ret (insert m selected, selections @ [users ! m]))" by simp
    then show ?thesis
    proof
      assume p: "o1 = Panic (UnableToSelect n (length users))"
      with True inner run have "out = Panic (UnableToSelect n (length users))" "r' = r1"
        by (simp_all add: selectRandomUsers_loop.simps [of n users i selected selections r])
      with io step show ?thesis by simp
    next
      assume "\<exists>m. m < length users \<and> m \<notin> selected \<and>
           o1 = Ret (insert m selected, selections @ [users ! m])"
      then obtain m where m: "m < length users" "m \<notin> selected"
        and o1: "o1 = Ret (insert m selected, selections @ [users ! m])" by blast
      from True inner o1 run
      have rec: "selectRandomUsers_loop n users (i + 1) (insert m selected)
                   (selections @ [users ! m]) r1 = (out, r')"
        by (simp add: selectRandomUsers_loop.simps [of n users i selected selections r])
      have a: "insert m selected = set (js @ [m])"
        using "1.prems"(3) by simp
      have b: "distinct (js @ [m])"
        using "1.prems"(3,4) m by simp
      have c: "list_all (\<lambda>k. k < length users) (js @ [m])"
        using "1.prems"(5) m by simp
      have d: "selections @ [users ! m] = map ((!) users) (js @ [m])"
        using "1.prems"(6) by simp
      have "src r' = src r1 \<and> pos r1 \<le> pos r' \<and> pos r' \<le> pos r1 + nat (n - (i + 1)) * nat (n * 5 + 1) \<and>
        (out = Panic (UnableToSelect n (length users)) \<or>
         (\<exists>js'. out = Ret (map ((!) users) js') \<and> distinct js' \<and>
          list_all (\<lambda>k. k < length users) js' \<and> length js' = length (js @ [m]) + nat (n - (i + 1))))"
        by (rule "1.IH" [OF True inner [symmetric] o1 refl rec nonempty a b c d])
      moreover have "pos r1 \<le> pos r + nat (n * 5 + 1)"
        using io by simp
      ultimately show ?thesis using io step by auto
    qed
  qed
qed


lemma inner_exhausted:
  "0 < length users \<Longrightarrow> j \<le> n * 5 + 1 \<Longrightarrow>
   (\<forall>k < nat (n * 5 + 1 - j). src r (pos r + k) mod length users \<in> selected) \<Longrightarrow>
   selectRandomUsers_inner n users selected selections j r =
     (Panic (UnableToSelect n (length users)), r\<lparr>pos := pos r + nat (n * 5 + 1 - j)\<rparr>)"
proof (induction n users selected selections j r rule: selectRandomUsers_inner.induct)
  case (1 n users selected selections j r)
  show ?case
  proof (cases "j > n * 5")
    case True
    with "1.prems" have "nat (n * 5 + 1 - j) = 0" by simp
    with True show ?thesis
      by (simp add: selectRandomUsers_inner.simps [of n users selected selections j r])
  next
    case False
    let ?m = "src r (pos r) mod length users"
    let ?r1 = "r\<lparr>pos := pos r + 1\<rparr>"
    have draw: "Intn (length users) r = (Ret ?m, ?r1)"
      using "1.prems" by (simp add: Intn_def)
    have left: "nat (n * 5 + 1 - j) = Suc (nat (n * 5 + 1 - (j + 1)))"
      using False by simp
    have hit: "?m \<in> selected"
      using "1.prems"(3) [rule_format, of 0] False by simp
    have rest: "\<forall>k < nat (n * 5 + 1 - (j + 1)). src ?r1 (pos ?r1 + k) mod length users \<in> selected"
    proof (intro allI impI)
      fix k assume "k < nat (n * 5 + 1 - (j + 1))"
      then have "Suc k < nat (n * 5 + 1 - j)" using left by simp
      from "1.prems"(3) [rule_format, OF this] show "src ?r1 (pos ?r1 + k) mod length users \<in> selected"
        by simp
    qed
    have "selectRandomUsers_inner n users selected selections (j + 1) ?r1 =
       (Panic (UnableToSelect n (length users)), ?r1\<lparr>pos := pos ?r1 + nat (n * 5 + 1 - (j + 1))\<rparr>)"
      using "1.IH" [OF False draw [symmetric] refl _ "1.prems"(1) _ rest] hit False by simp
    with False draw hit left show ?thesis
      by (simp add: selectRandomUsers_inner.simps [of n users selected selections j r])
  qed
qed


lemma selectRandomUsers_drawn:
  assumes "0 < n" and "n < int (length users)"
    and "selectRandomUsers n users r = (out, r')"
  shows "src r' = src r \<and> pos r \<le> pos r' \<and> pos r' \<le> pos r + nat n * nat (n * 5 + 1) \<and>
     (out = Panic (UnableToSelect n (length users)) \<or>
      (\<exists>js. out = Ret (map ((!) users) js) \<and> distinct js \<and>
          list_all (\<lambda>k. k < length users) js \<and> length js = nat n))"
proof -
  from assms have run: "selectRandomUsers_loop n users 0 {} [] r = (out, r')"
    by (simp add: selectRandomUsers_def)
  from assms have "0 < length users" by auto
  from loop_outcome [OF run this, of "[]"] show ?thesis by simp
qed

lemma nth_sample:
  assumes "distinct js" and "list_all (\<lambda>k. k < length users) js"
  shows "set (map ((!) users) js) \<subseteq> set users"
    and "distinct users \<Longrightarrow> distinct (map ((!) users) js)"
proof -
  from assms(2) have in_range: "set js \<subseteq> {..<length users}"
    by (auto simp: list_all_iff)
  then show "set (map ((!) users) js) \<subseteq> set users"
    by auto
  assume "distinct users"
  then have "inj_on ((!) users) {..<length users}"
    by (simp add: inj_on_nth)
  with in_range have "inj_on ((!) users) (set js)"
    by (rule inj_on_subset [rotated])
  with assms(1) show "distinct (map ((!) users) js)"
    by (simp add: distinct_map)
qed

text \<open>A generator that keeps drawing one index makes the second pick give up.\<close>

lemma constant_generator_panics:
  assumes n: "2 \<le> n" "n < int (length users)"
    and const: "\<forall>k. src r k mod length users = c"
  shows "fst (selectRandomUsers n users r) = Panic (UnableToSelect n (length users))"
proof -
  from n have nonempty: "0 < length users" by auto
  let ?r1 = "r\<lparr>pos := Suc (pos r)\<rparr>"
  have c: "c < length users"
    using const [rule_format, of 0] nonempty by (metis mod_less_divisor)
  have draw: "Intn (length users) r = (Ret c, ?r1)"
    using nonempty const by (simp add: Intn_def)
  have first: "selectRandomUsers_inner n users {} [] 0 r = (Ret ({c}, [users ! c]), ?r1)"
    using n draw c by (simp add: selectRandomUsers_inner.simps [of n users "{}" "[]" 0 r] index_def)
  have "\<forall>k < nat (n * 5 + 1 - 0). src ?r1 (pos ?r1 + k) mod length users \<in> {c}"
    using const by simp
  have "0 \<le> n * 5 + 1"
    using n by simp
  from inner_exhausted [OF nonempty this \<open>\<forall>k < nat (n * 5 + 1 - 0). _\<close>, of "[users ! c]"]
  obtain r2 where second: "selectRandomUsers_inner n users {c} [users ! c] 0 ?r1
      = (Panic (UnableToSelect n (length users)), r2)"
    by blast
  have "fst (selectRandomUsers_loop n users 1 {c} [users ! c] ?r1)
      = Panic (UnableToSelect n (length users))"
    using n by (simp add: selectRandomUsers_loop.simps [of n users 1] second)
  then have "fst (selectRandomUsers_loop n users 0 {} [] r)
      = Panic (UnableToSelect n (length users))"
    using n first by (simp add: selectRandomUsers_loop.simps [of n users 0])
  with n show ?thesis
    by (simp add: selectRandomUsers_def)
qed

text \<open>
  C6, as stated, fails where it says how the sampler gives up: the function has no error
  result, and when a pick finds no unused index it panics (line 65). No
  \<open>SamplingError\<close> value reaches the caller.
\<close>

theorem selectRandomUsers_gives_up_by_panic:
  "fst (selectRandomUsers 2 [''a'', ''b'', ''c''] constRand) = Panic (UnableToSelect 2 3)"
  by (simp add: selectRandomUsers_def selectRandomUsers_loop.simps selectRandomUsers_inner.simps
      Intn_def index_def constRand_def)

text \<open>
  C6, amended: when \<open>0 < n < len(candidates)\<close>, the retries of \<open>selectRandomUsers\<close> are
  bounded, so a call always ends, after a number of draws bounded in terms of \<open>n\<close>
  alone. It ends either with exactly \<open>n\<close> logins, never with fewer, or by giving up
  loudly -- as it does whenever \<open>n \<ge> 2\<close> and the generator keeps drawing one index --
  with the Go panic "Unable to select random value", not with an error value returned
  to the caller. How many draws are made before giving up is not part of this
  statement.
\<close>

theorem selectRandomUsers_gives_up_loudly:
  assumes "0 < n" and "n < int (length users)"
    and "selectRandomUsers n users r = (out, r')"
  shows "(out = Panic (UnableToSelect n (length users))
        \<or> (\<exists>sels. out = Ret sels \<and> length sels = nat n))
    \<and> (\<exists>bound. \<forall>users0 r0 out0 r1.
          n < int (length users0) \<longrightarrow> selectRandomUsers n users0 r0 = (out0, r1) \<longrightarrow>
            pos r1 \<le> pos r0 + bound)
    \<and> (2 \<le> n \<and> (\<forall>k. src r k mod length users = c) \<longrightarrow>
          out = Panic (UnableToSelect n (length users)))"
proof (intro conjI impI)
  show "out = Panic (UnableToSelect n (length users))
        \<or> (\<exists>sels. out = Ret sels \<and> length sels = nat n)"
    using selectRandomUsers_drawn [OF assms] by auto
  have "pos r1 \<le> pos r0 + nat n * nat (n * 5 + 1)"
    if "n < int (length users0)" and "selectRandomUsers n users0 r0 = (out0, r1)"
    for users0 r0 out0 r1
    using selectRandomUsers_drawn [OF assms(1) that] by simp
  then show "\<exists>bound. \<forall>users0 r0 out0 r1.
          n < int (length users0) \<longrightarrow> selectRandomUsers n users0 r0 = (out0, r1) \<longrightarrow>
            pos r1 \<le> pos r0 + bound"
    by blast
  assume "2 \<le> n \<and> (\<forall>k. src r k mod length users = c)"
  with constant_generator_panics [of n users r c] assms(2,3)
  show "out = Panic (UnableToSelect n (length users))"
    by simp
qed

theorem selectRandomUsers_gives_up_loudly_witness:
  "(0::int) < 2 \<and> (2::int) < int (length [''a'', ''b'', ''c''])
   \<and> (\<forall>k. src constRand k mod length [''a'', ''b'', ''c''] = 0)
   \<and> fst (selectRandomUsers 2 [''a'', ''b'', ''c''] constRand) = Panic (UnableToSelect 2 3)"
proof -
  have n: "(0::int) < 2" and len: "(2::int) < int (length [''a'', ''b'', ''c''])"
    by simp_all
  have const: "\<forall>k. src constRand k mod length [''a'', ''b'', ''c''] = 0"
    by (simp add: constRand_def)
  have run: "selectRandomUsers 2 [''a'', ''b'', ''c''] constRand
      = (fst (selectRandomUsers 2 [''a'', ''b'', ''c''] constRand),
         snd (selectRandomUsers 2 [''a'', ''b'', ''c''] constRand))"
    by simp
  from selectRandomUsers_gives_up_loudly [OF n len run, of 0] const
  have "fst (selectRandomUsers 2 [''a'', ''b'', ''c''] constRand) = Panic (UnableToSelect 2 3)"
    by simp
  with n len const show ?thesis by blast
qed

subsection \<open>Go maps and sets\<close>

lemma set_rangeKeys [simp]: "set (rangeKeys ord ks) = set ks"
  by (simp add: rangeKeys_def Let_def)

lemma distinct_rangeKeys: "distinct ks \<Longrightarrow> distinct (rangeKeys ord ks)"
  by (simp add: rangeKeys_def Let_def)

lemma set_map_filter_Some: "set (List.map_filter f xs) = {y. \<exists>x \<in> set xs. f x = Some y}"
  by (induction xs) (auto split: option.splits)

text \<open>A range over a map meets every entry, in whatever order.\<close>

lemma set_rangeMap: "set (rangeMap ord m) = {(k, v). map_of m k = Some v}"
proof -
  have "map_of m k = Some v \<Longrightarrow> k \<in> fst ` set m" for k v
    by (metis map_of_SomeD fst_conv image_eqI)
  then show ?thesis
    by (fastforce simp: rangeMap_def set_map_filter_Some)
qed

lemma set_foldl_insert: "set (foldl (\<lambda>s u. List.insert u s) acc xs) = set acc \<union> set xs"
  by (induction xs arbitrary: acc) auto

lemma distinct_foldl_insert:
  "distinct acc \<Longrightarrow> distinct (foldl (\<lambda>s u. List.insert u s) acc xs)"
  by (induction xs arbitrary: acc) auto

lemma foldl_filter_append:
  "foldl (\<lambda>l u. if P u then l @ [u] else l) acc xs = acc @ filter P xs"
  by (induction xs arbitrary: acc) auto

subsection \<open>The admins do not depend on the order of a range\<close>

lemma foldl_admins:
  "foldl (\<lambda>acc (user, perm). if perm = p then acc @ [user] else acc) a xs
     = a @ map fst (filter (\<lambda>(user, perm). perm = p) xs)"
  by (induction xs arbitrary: a) (auto split: prod.splits)

lemma set_foldl_admins:
  "set (foldl (\<lambda>acc (user, perm). if perm = p then acc @ [user] else acc) a xs)
     = set a \<union> {u. (u, p) \<in> set xs}"
  by (force simp: foldl_admins)

lemma selectAdmins_teams_None:
  "snd (selectAdmins_teams prctx xs acc) = None \<longleftrightarrow>
     (\<forall>team. (team, GithubAdminPermission) \<in> set xs \<longrightarrow>
        snd (TeamMembers prctx (RepositoryOwner prctx @ ''/'' @ team)) = None)"
proof (induction prctx xs acc rule: selectAdmins_teams.induct)
  case (1 prctx adminUsers)
  show ?case by simp
next
  case (2 prctx team perm rest adminUsers)
  show ?case
  proof (cases "perm = GithubAdminPermission")
    case False
    with 2 show ?thesis by auto
  next
    case True
    obtain admins e where tm: "TeamMembers prctx (RepositoryOwner prctx @ ''/'' @ team) = (admins, e)"
      by (cases "TeamMembers prctx (RepositoryOwner prctx @ ''/'' @ team)")
    show ?thesis
    proof (cases e)
      case None
      with True tm "2.IH"(1) [OF True refl tm [symmetric] None] show ?thesis
        by (auto simp: Let_def)
    next
      case (Some err)
      with True tm show ?thesis by (auto simp: Let_def)
    qed
  qed
qed

lemma set_selectAdmins_teams:
  "set (fst (selectAdmins_teams prctx xs acc)) =
     (if snd (selectAdmins_teams prctx xs acc) = None
      then set acc \<union> (\<Union>team \<in> {t. (t, GithubAdminPermission) \<in> set xs}.
                          set (fst (TeamMembers prctx (RepositoryOwner prctx @ ''/'' @ team))))
      else {})"
proof (induction prctx xs acc rule: selectAdmins_teams.induct)
  case (1 prctx adminUsers)
  show ?case by simp
next
  case (2 prctx team perm rest adminUsers)
  show ?case
  proof (cases "perm = GithubAdminPermission")
    case False
    with 2 show ?thesis by auto
  next
    case True
    obtain admins e where tm: "TeamMembers prctx (RepositoryOwner prctx @ ''/'' @ team) = (admins, e)"
      by (cases "TeamMembers prctx (RepositoryOwner prctx @ ''/'' @ team)")
    show ?thesis
    proof (cases e)
      case None
      with True tm "2.IH"(1) [OF True refl tm [symmetric] None] show ?thesis
        by (auto simp: Let_def)
    next
      case (Some err)
      with True tm show ?thesis by (auto simp: Let_def)
    qed
  qed
qed

lemma selectAdmins_order:
  "snd (selectAdmins ord prctx scope) = None \<longleftrightarrow> snd (selectAdmins ord' prctx scope) = None"
  "set (fst (selectAdmins ord prctx scope)) = set (fst (selectAdmins ord' prctx scope))"
proof -
  show "snd (selectAdmins ord prctx scope) = None \<longleftrightarrow> snd (selectAdmins ord' prctx scope) = None"
    by (cases scope)
      (auto simp: selectAdmins_def selectAdmins_teams_None set_rangeMap
        split: prod.splits option.splits)
  show "set (fst (selectAdmins ord prctx scope)) = set (fst (selectAdmins ord' prctx scope))"
  proof (cases scope)
    case AdminScopeUser
    then show ?thesis
      by (simp add: selectAdmins_def set_foldl_admins set_rangeMap
          split: prod.splits option.splits)
  next
    case AdminScopeTeam
    obtain teams e where teams: "TeamsOf prctx = (teams, e)"
      by (cases "TeamsOf prctx")
    show ?thesis
    proof (cases e)
      case (Some err)
      with AdminScopeTeam teams show ?thesis by (simp add: selectAdmins_def)
    next
      case None
      have "set (fst (selectAdmins_teams prctx (rangeMap ord teams) []))
          = set (fst (selectAdmins_teams prctx (rangeMap ord' teams) []))"
        by (simp only: set_selectAdmins_teams selectAdmins_teams_None set_rangeMap)
      with AdminScopeTeam teams None show ?thesis by (simp add: selectAdmins_def)
    qed
  next
    case AdminScopeOrg
    then show ?thesis by (simp add: selectAdmins_def split: prod.splits option.splits)
  next
    case (AdminScopeOther s)
    then show ?thesis by (simp add: selectAdmins_def)
  qed
qed

lemma eligible_order: "eligible ord prctx rule u \<longleftrightarrow> eligible ord' prctx rule u"
  using selectAdmins_order(2) [of ord prctx "AdminScope rule" ord']
  by (simp add: eligible_def)

lemma finalCandidates_order:
  "finalCandidates ord prctx rule r = finalCandidates ord' prctx rule r"
  using selectAdmins_order(2) [of ord prctx "AdminScope rule" ord'] eligible_order [of ord prctx rule _ ord']
  by (simp add: finalCandidates_def candidatePool_def resolvedAdmins_def)

subsection \<open>The steps of the aggregator\<close>

lemma set_collectUsers: "set (collectUsers rule []) = set (Users rule)"
  by (auto simp: collectUsers_def set_foldl_insert)

lemma selectTeamMembers_nonempty:
  assumes "allTeams \<noteq> []"
  shows "selectTeamMembers prctx allTeams r =
     (Ret (case TeamMembers prctx (allTeams ! (src r (pos r) mod length allTeams)) of
             (teamMembers, Some err) \<Rightarrow>
               ([], Some (Wrap err (''failed to get member listing for team ''
                     @ allTeams ! (src r (pos r) mod length allTeams))))
           | (teamMembers, None) \<Rightarrow> (teamMembers, None)),
      r\<lparr>pos := pos r + 1\<rparr>)"
  using assms
  by (simp add: selectTeamMembers_def Intn_def index_def split: prod.splits option.splits)

lemma selectOrgMembers_nonempty:
  assumes "allOrgs \<noteq> []"
  shows "selectOrgMembers prctx allOrgs r =
     (Ret (case OrganizationMembers prctx (allOrgs ! (src r (pos r) mod length allOrgs)) of
             (orgMembers, Some err) \<Rightarrow>
               ([], Some (Wrap err (''failed to get member listing for org ''
                     @ allOrgs ! (src r (pos r) mod length allOrgs))))
           | (orgMembers, None) \<Rightarrow> (orgMembers, None)),
      r\<lparr>pos := pos r + 1\<rparr>)"
  using assms
  by (simp add: selectOrgMembers_def Intn_def index_def split: prod.splits option.splits)

lemma collectTeamMembers_nonempty:
  assumes "Teams rule \<noteq> []"
  shows "collectTeamMembers prctx rule allUsers r lg =
     (case TeamMembers prctx (sampledTeam rule r) of
        (teamMembers, Some err) \<Rightarrow>
          (Ret allUsers, r\<lparr>pos := pos r + 1\<rparr>,
           lg @ [(Wrap err (''failed to get member listing for team '' @ sampledTeam rule r),
                  ''Unable to get member listing for teams, skipping team member selection'')])
      | (teamMembers, None) \<Rightarrow>
          (Ret (foldl (\<lambda>s user. List.insert user s) allUsers teamMembers),
           r\<lparr>pos := pos r + 1\<rparr>, lg))"
  using assms
  by (simp add: collectTeamMembers_def selectTeamMembers_nonempty sampledTeam_def
      split: prod.splits option.splits)

lemma collectOrgMembers_nonempty:
  assumes "Organizations rule \<noteq> []"
  shows "collectOrgMembers prctx rule allUsers r lg =
     (case OrganizationMembers prctx
             (Organizations rule ! (src r (pos r) mod length (Organizations rule))) of
        (orgMembers, Some err) \<Rightarrow>
          (Ret allUsers, r\<lparr>pos := pos r + 1\<rparr>,
           lg @ [(Wrap err (''failed to get member listing for org ''
                    @ Organizations rule ! (src r (pos r) mod length (Organizations rule))),
                  ''Unable to get member listing for org, skipping org member selection'')])
      | (orgMembers, None) \<Rightarrow>
          (Ret (foldl (\<lambda>s user. List.insert user s) allUsers orgMembers),
           r\<lparr>pos := pos r + 1\<rparr>, lg))"
  using assms
  by (simp add: collectOrgMembers_def selectOrgMembers_nonempty
      split: prod.splits option.splits)

text \<open>
  The team step never panics: it draws only when there is a team, and then returns the
  users so far, together with the members of the one team drawn if its lookup succeeds.
  The organization step does the same, one draw later when the rule has teams.
\<close>

lemma collectTeamMembers_Ret:
  "\<exists>us lg1. collectTeamMembers prctx rule allUsers r lg
       = (Ret us, (if Teams rule = [] then r else r\<lparr>pos := pos r + 1\<rparr>), lg1)
     \<and> set us = set allUsers \<union> sampledTeamMembers prctx rule r
     \<and> (distinct allUsers \<longrightarrow> distinct us)"
proof (cases "Teams rule = []")
  case True
  then show ?thesis by (simp add: collectTeamMembers_def sampledTeamMembers_def)
next
  case False
  obtain ms e where "TeamMembers prctx (sampledTeam rule r) = (ms, e)"
    by (cases "TeamMembers prctx (sampledTeam rule r)")
  with False show ?thesis
    by (cases e)
      (simp_all add: collectTeamMembers_nonempty sampledTeamMembers_def set_foldl_insert
        distinct_foldl_insert)
qed

lemma collectOrgMembers_Ret:
  assumes "r1 = (if Teams rule = [] then r else r\<lparr>pos := pos r + 1\<rparr>)"
  shows "\<exists>us lg1. collectOrgMembers prctx rule allUsers r1 lg
       = (Ret us, (if Organizations rule = [] then r1 else r1\<lparr>pos := pos r1 + 1\<rparr>), lg1)
     \<and> set us = set allUsers \<union> sampledOrgMembers prctx rule r
     \<and> (distinct allUsers \<longrightarrow> distinct us)"
proof (cases "Organizations rule = []")
  case True
  then show ?thesis by (simp add: collectOrgMembers_def sampledOrgMembers_def)
next
  case False
  have drawn: "Organizations rule ! (src r1 (pos r1) mod length (Organizations rule))
      = sampledOrg rule r"
    using assms by (simp add: sampledOrg_def)
  obtain ms e where "OrganizationMembers prctx (sampledOrg rule r) = (ms, e)"
    by (cases "OrganizationMembers prctx (sampledOrg rule r)")
  with False drawn show ?thesis
    by (cases e)
      (simp_all add: collectOrgMembers_nonempty sampledOrgMembers_def set_foldl_insert
        distinct_foldl_insert)
qed

lemma set_collectWriteCollaborators:
  "set (collectWriteCollaborators ord rule m allUsers) =
     set allUsers \<union> (if WriteCollaborators rule
                      then {u. map_of m u = Some GithubWritePermission} else {})"
proof -
  have "set (foldl (\<lambda>s x. if snd x = w then List.insert (fst x) s else s) acc xs)
      = set acc \<union> {u. (u, w) \<in> set xs}"
    for acc w and xs :: "(string \<times> string) list"
    by (induction xs arbitrary: acc) auto
  then show ?thesis
    by (simp add: collectWriteCollaborators_def case_prod_unfold set_rangeMap)
qed

lemma distinct_collectWriteCollaborators:
  "distinct allUsers \<Longrightarrow> distinct (collectWriteCollaborators ord rule m allUsers)"
proof -
  have "distinct acc \<Longrightarrow>
      distinct (foldl (\<lambda>s (user, perm). if perm = w then List.insert user s else s) acc xs)"
    for acc w and xs :: "(string \<times> string) list"
    by (induction xs arbitrary: acc) (auto split: prod.splits)
  then show "distinct allUsers \<Longrightarrow> distinct (collectWriteCollaborators ord rule m allUsers)"
    by (simp add: collectWriteCollaborators_def)
qed

lemma collectAdmins_foldl:
  "foldl (\<lambda>(us, cs) admin. (List.insert admin us, AList.update admin p cs)) (us0, cs0) admins
     = (us1, cs1) \<Longrightarrow>
   set us1 = set us0 \<union> set admins \<and> dom (map_of cs1) = dom (map_of cs0) \<union> set admins
   \<and> (distinct us0 \<longrightarrow> distinct us1)"
proof (induction admins arbitrary: us0 cs0)
  case Nil
  then show ?case by simp
next
  case (Cons a admins)
  from Cons.prems
  have "foldl (\<lambda>(us, cs) admin. (List.insert admin us, AList.update admin p cs))
          (List.insert a us0, AList.update a p cs0) admins = (us1, cs1)"
    by simp
  from Cons.IH [OF this] show ?case
    by (auto simp: update_conv' split: if_splits)
qed

text \<open>What the collaborators to consider are, when that step succeeds.\<close>

lemma collectAdmins_None:
  assumes "collectAdmins ord prctx rule allCollaborators allUsers = ((us, cs), None)"
  shows "set us = set allUsers \<union> resolvedAdmins ord prctx rule"
    and "distinct allUsers \<Longrightarrow> distinct us"
    and "if Admins rule
         then snd (selectAdmins ord prctx (AdminScope rule)) = None
              \<and> dom (map_of cs) = set (fst (selectAdmins ord prctx (AdminScope rule)))
         else cs = allCollaborators"
proof -
  have "set us = set allUsers \<union> resolvedAdmins ord prctx rule
    \<and> (distinct allUsers \<longrightarrow> distinct us)
    \<and> (if Admins rule
         then snd (selectAdmins ord prctx (AdminScope rule)) = None
              \<and> dom (map_of cs) = set (fst (selectAdmins ord prctx (AdminScope rule)))
         else cs = allCollaborators)"
  proof (cases "Admins rule")
    case False
    with assms show ?thesis by (simp add: collectAdmins_def resolvedAdmins_def)
  next
    case True
    obtain admins e where sel: "selectAdmins ord prctx (AdminScope rule) = (admins, e)"
      by (cases "selectAdmins ord prctx (AdminScope rule)")
    with True assms have e: "e = None"
      by (cases e) (simp_all add: collectAdmins_def)
    with True assms sel
    have "foldl (\<lambda>(us, cs) admin. (List.insert admin us, AList.update admin GithubAdminPermission cs))
            (allUsers, []) admins = (us, cs)"
      by (simp add: collectAdmins_def)
    from collectAdmins_foldl [OF this] True sel e show ?thesis
      by (simp add: resolvedAdmins_def)
  qed
  then show "set us = set allUsers \<union> resolvedAdmins ord prctx rule"
    and "distinct allUsers \<Longrightarrow> distinct us"
    and "if Admins rule
         then snd (selectAdmins ord prctx (AdminScope rule)) = None
              \<and> dom (map_of cs) = set (fst (selectAdmins ord prctx (AdminScope rule)))
         else cs = allCollaborators"
    by simp_all
qed

lemma collectAdmins_Some:
  assumes "collectAdmins ord prctx rule allCollaborators allUsers = (x, Some e)"
  shows "Admins rule"
    and "\<exists>e'. snd (selectAdmins ord prctx (AdminScope rule)) = Some e'
           \<and> e = Wrap e' ''Unable to select admins''"
  using assms
  by (auto simp: collectAdmins_def split: prod.splits option.splits if_splits)

lemma filterCandidates_filter:
  "filterCandidates ord prctx allUsers cs =
     filter (\<lambda>u. u \<noteq> Author prctx \<and> map_of cs u \<noteq> None) (rangeKeys ord allUsers)"
  by (simp add: filterCandidates_def foldl_filter_append)

text \<open>The aggregator, once the team and organization steps have returned.\<close>

lemma candidatesForLeaf_stages:
  assumes "collectTeamMembers prctx (ReviewRequestRule child)
             (collectUsers (ReviewRequestRule child) []) r lg = (Ret us1, r1, lg1)"
    and "collectOrgMembers prctx (ReviewRequestRule child) us1 r1 lg1 = (Ret us2, r2, lg2)"
  shows "candidatesForLeaf ords prctx child r lg =
     (Ret (case RepositoryCollaborators prctx of
             (m, Some err) \<Rightarrow> ([], Some (Wrap err ''Unable to list repository collaborators''))
           | (m, None) \<Rightarrow>
               (case collectAdmins (ords 1) prctx (ReviewRequestRule child) m
                       (collectWriteCollaborators (ords 0) (ReviewRequestRule child) m us2) of
                  (x, Some err) \<Rightarrow> ([], Some err)
                | ((us4, cs), None) \<Rightarrow> (filterCandidates (ords 2) prctx us4 cs, None))),
      r2, lg2)"
  using assms
  by (simp add: candidatesForLeaf_def split: prod.splits option.splits)

lemma candidatesForLeaf_stages_Result:
  assumes "collectTeamMembers prctx rule (collectUsers rule []) r lg = (Ret us1, r1, lg1)"
    and "collectOrgMembers prctx rule us1 r1 lg1 = (Ret us2, r2, lg2)"
  shows "candidatesForLeaf ords prctx (Result st err rule cs) r lg =
     (Ret (case RepositoryCollaborators prctx of
             (m, Some err) \<Rightarrow> ([], Some (Wrap err ''Unable to list repository collaborators''))
           | (m, None) \<Rightarrow>
               (case collectAdmins (ords 1) prctx rule m
                       (collectWriteCollaborators (ords 0) rule m us2) of
                  (x, Some err) \<Rightarrow> ([], Some err)
                | ((us4, cs), None) \<Rightarrow> (filterCandidates (ords 2) prctx us4 cs, None))),
      r2, lg2)"
  using assms
  by (simp add: candidatesForLeaf_def split: prod.splits option.splits)

text \<open>
  The candidates of a leaf: the aggregator never panics, and it returns either the error
  of the collaborator listing, or the error of the admin selection, or the final
  candidates of the leaf, each once, having made one draw for the teams of the rule and
  one for its organizations. Whether the admin selection fails and which admins it
  resolves does not depend on the order of its range, so they are stated for an order
  \<open>ord'\<close> of any kind.
\<close>

lemma candidatesForLeaf_cases:
  obtains (listing) e r1 lg1 where
      "snd (RepositoryCollaborators prctx) = Some e"
      "candidatesForLeaf ords prctx child r lg
         = (Ret ([], Some (Wrap e ''Unable to list repository collaborators'')), r1, lg1)"
  | (admins) e r1 lg1 where
      "snd (RepositoryCollaborators prctx) = None"
      "Admins (ReviewRequestRule child)"
      "snd (selectAdmins ord' prctx (AdminScope (ReviewRequestRule child))) \<noteq> None"
      "candidatesForLeaf ords prctx child r lg
         = (Ret ([], Some (Wrap e ''Unable to select admins'')), r1, lg1)"
  | (candidates) l r1 lg1 where
      "snd (RepositoryCollaborators prctx) = None"
      "Admins (ReviewRequestRule child) \<longrightarrow>
         snd (selectAdmins ord' prctx (AdminScope (ReviewRequestRule child))) = None"
      "candidatesForLeaf ords prctx child r lg = (Ret (l, None), r1, lg1)"
      "set l = finalCandidates ord' prctx (ReviewRequestRule child) r"
      "distinct l"
      "pos r1 = pos r + (if Teams (ReviewRequestRule child) = [] then 0 else 1)
                      + (if Organizations (ReviewRequestRule child) = [] then 0 else 1)"
proof -
  let ?rule = "ReviewRequestRule child"
  let ?r1 = "if Teams ?rule = [] then r else r\<lparr>pos := pos r + 1\<rparr>"
  let ?r2 = "if Organizations ?rule = [] then ?r1 else ?r1\<lparr>pos := pos ?r1 + 1\<rparr>"
  have "distinct (collectUsers ?rule [])"
    by (simp add: collectUsers_def distinct_foldl_insert)
  then obtain us1 lg1 where
    team: "collectTeamMembers prctx ?rule (collectUsers ?rule []) r lg = (Ret us1, ?r1, lg1)"
    and s1: "set us1 = set (Users ?rule) \<union> sampledTeamMembers prctx ?rule r"
    and d1: "distinct us1"
    using collectTeamMembers_Ret [of prctx ?rule "collectUsers ?rule []" r lg]
    by (auto simp: set_collectUsers)
  obtain us2 lg2 where
    org: "collectOrgMembers prctx ?rule us1 ?r1 lg1 = (Ret us2, ?r2, lg2)"
    and s2: "set us2 = set us1 \<union> sampledOrgMembers prctx ?rule r"
    and d2: "distinct us2"
    using collectOrgMembers_Ret [OF refl, of prctx ?rule us1 r lg1] d1 by blast
  note run = candidatesForLeaf_stages [OF team org, of ords]
  have draws: "pos ?r2 = pos r + (if Teams ?rule = [] then 0 else 1)
                      + (if Organizations ?rule = [] then 0 else 1)"
    by simp
  obtain m eo where coll: "RepositoryCollaborators prctx = (m, eo)"
    by (cases "RepositoryCollaborators prctx")
  show thesis
  proof (cases eo)
    case (Some e)
    with run coll
    have "candidatesForLeaf ords prctx child r lg
         = (Ret ([], Some (Wrap e ''Unable to list repository collaborators'')), ?r2, lg2)"
      by simp
    with coll Some show thesis by (intro listing) simp_all
  next
    case None
    let ?us3 = "collectWriteCollaborators (ords 0) ?rule m us2"
    have s3: "set ?us3 = set us2 \<union> writers prctx ?rule" and d3: "distinct ?us3"
      using coll d2 by (simp_all add: set_collectWriteCollaborators writers_def
          distinct_collectWriteCollaborators)
    obtain us cs ea where adm: "collectAdmins (ords 1) prctx ?rule m ?us3 = ((us, cs), ea)"
      by (cases "collectAdmins (ords 1) prctx ?rule m ?us3") auto
    show thesis
    proof (cases ea)
      case (Some e)
      from collectAdmins_Some [OF adm [unfolded Some]]
      obtain e' where a: "Admins ?rule"
        and e': "snd (selectAdmins (ords 1) prctx (AdminScope ?rule)) = Some e'"
          "e = Wrap e' ''Unable to select admins''"
        by blast
      from e'(1) selectAdmins_order(1) [of "ords 1" prctx "AdminScope ?rule" ord']
      have fails: "snd (selectAdmins ord' prctx (AdminScope ?rule)) \<noteq> None"
        by simp
      from run coll None adm Some e'(2)
      have "candidatesForLeaf ords prctx child r lg
         = (Ret ([], Some (Wrap e' ''Unable to select admins'')), ?r2, lg2)"
        by simp
      with coll None a fails show thesis by (intro admins) simp_all
    next
      case ea: None
      let ?l = "filter (\<lambda>u. u \<noteq> Author prctx \<and> map_of cs u \<noteq> None) (rangeKeys (ords 2) us)"
      note res = collectAdmins_None [OF adm [unfolded ea]]
      from run coll None adm ea
      have out: "candidatesForLeaf ords prctx child r lg = (Ret (?l, None), ?r2, lg2)"
        by (simp add: filterCandidates_filter)
      have pool: "set us = candidatePool (ords 1) prctx ?rule r"
        using res(1) s1 s2 s3 by (auto simp: candidatePool_def)
      have elig: "map_of cs u \<noteq> None \<longleftrightarrow> eligible (ords 1) prctx ?rule u" for u
      proof (cases "Admins ?rule")
        case True
        with res(3) have "dom (map_of cs) = set (fst (selectAdmins (ords 1) prctx (AdminScope ?rule)))"
          by simp
        with True show ?thesis by (auto simp: eligible_def)
      next
        case False
        with res(3) coll have "cs = fst (RepositoryCollaborators prctx)" by simp
        with False show ?thesis
          by (simp add: eligible_def dom_map_of_conv_image_fst [symmetric] domIff)
      qed
      have "set ?l = finalCandidates (ords 1) prctx ?rule r"
        using pool elig by (auto simp: finalCandidates_def)
      then have final: "set ?l = finalCandidates ord' prctx ?rule r"
        using finalCandidates_order [of "ords 1" prctx ?rule r ord'] by simp
      have dl: "distinct ?l"
        using distinct_rangeKeys [OF res(2) [OF d3], of "ords 2"] by simp
      have ok: "Admins ?rule \<longrightarrow> snd (selectAdmins ord' prctx (AdminScope ?rule)) = None"
        using res(3) selectAdmins_order(1) [of "ords 1" prctx "AdminScope ?rule" ord']
        by (auto split: if_splits)
      from coll None ok out final dl draws show thesis
        by (intro candidates [of ?l ?r2 lg2]) simp_all
    qed
  qed
qed

lemma collectOrgMembers_returns:
  "\<exists>us lg1. collectOrgMembers prctx rule allUsers r lg
       = (Ret us, (if Organizations rule = [] then r else r\<lparr>pos := pos r + 1\<rparr>), lg1)"
proof (cases "Organizations rule = []")
  case True
  then show ?thesis by (simp add: collectOrgMembers_def)
next
  case False
  then show ?thesis
    by (simp add: collectOrgMembers_nonempty split: prod.splits option.splits)
qed

lemmas model_defs =
  FindRandomRequesters_def requestersForLeaf_def candidatesForLeaf_def filterCandidates_def
  collectAdmins_def collectWriteCollaborators_def collectOrgMembers_def collectTeamMembers_def
  collectUsers_def selectAdmins_def selectOrgMembers_def selectTeamMembers_def
  selectRandomUsers_def selectRandomUsers_loop.simps selectRandomUsers_inner.simps
  rangeMap_def rangeKeys_def Intn_def index_def
  GithubAdminPermission_def GithubWritePermission_def

lemmas example_defs =
  orgContext_def adminsRule_def usersRule_def pendingLeaf_def keyOrder_def keyOrders_def
  constRand_def lateRand_def countRand_def approvedRoot_def teamContext_def teamsRule_def
  twoLeaves_def sampledTeam_def sampledOrg_def noListingContext_def mixedOrders_def

subsection \<open>The body of the loop and the loop\<close>

text \<open>A helper on the sampler: it panics only by giving up, and it returns candidates.\<close>

lemma selectRandomUsers_cases:
  assumes "selectRandomUsers n users r = (out, r')"
  shows "(out = Panic (UnableToSelect n (length users)) \<and> 0 < n \<and> n < int (length users))
    \<or> (\<exists>sels. out = Ret sels \<and> set sels \<subseteq> set users \<and> (distinct users \<longrightarrow> distinct sels))"
proof -
  consider (zero) "n = 0" | (neg) "n < 0" | (all) "n \<noteq> 0" "n \<ge> int (length users)"
    | (some) "0 < n" "n < int (length users)"
    by linarith
  then show ?thesis
  proof cases
    case zero
    with assms show ?thesis by (auto simp: selectRandomUsers_def)
  next
    case neg
    with assms have "out = Ret []"
      by (simp add: selectRandomUsers_def selectRandomUsers_loop.simps [of n users 0])
    then show ?thesis by simp
  next
    case all
    with assms show ?thesis by (auto simp: selectRandomUsers_def)
  next
    case some
    from selectRandomUsers_drawn [OF some assms] some nth_sample show ?thesis
      by blast
  qed
qed

lemma selectRandomUsers_Nil: "selectRandomUsers n [] r = (Ret [], r)"
  by (simp add: selectRandomUsers_def selectRandomUsers_loop.simps [of n "[]" 0])

text \<open>
  The body of the loop either returns the error of the aggregator, or samples among the
  final candidates of the leaf.
\<close>

lemma requestersForLeaf_cases:
  obtains (failed) e r1 lg1 where
      "candidatesForLeaf ords prctx child r lg = (Ret ([], Some e), r1, lg1)"
      "requestersForLeaf ords prctx child r lg = (Ret ([], Some e), r1, lg1)"
  | (sampled) allUserList r1 lg1 x r2 where
      "candidatesForLeaf ords prctx child r lg = (Ret (allUserList, None), r1, lg1)"
      "set allUserList = finalCandidates ord' prctx (ReviewRequestRule child) r"
      "distinct allUserList"
      "selectRandomUsers (RequiredCount (ReviewRequestRule child)) allUserList r1 = (x, r2)"
      "requestersForLeaf ords prctx child r lg
         = ((case x of Panic p \<Rightarrow> Panic p | Ret sel \<Rightarrow> Ret (sel, None)), r2, lg1)"
proof (cases rule: candidatesForLeaf_cases [where prctx = prctx and ords = ords
      and child = child and r = r and lg = lg and ord' = ord'])
  case (listing e r1 lg1)
  then show ?thesis
    by (intro failed [of "Wrap e ''Unable to list repository collaborators''" r1 lg1])
      (simp_all add: requestersForLeaf_def)
next
  case (admins e r1 lg1)
  then show ?thesis
    by (intro failed [of "Wrap e ''Unable to select admins''" r1 lg1])
      (simp_all add: requestersForLeaf_def)
next
  case (candidates l r1 lg1)
  obtain x r2 where
    x: "selectRandomUsers (RequiredCount (ReviewRequestRule child)) l r1 = (x, r2)"
    by (cases "selectRandomUsers (RequiredCount (ReviewRequestRule child)) l r1")
  with candidates(3,4,5) show ?thesis
    by (intro sampled [of l r1 lg1 x r2])
      (simp_all add: requestersForLeaf_def split: res.splits)
qed

lemma candidates_final:
  assumes "candidatesForLeaf ords prctx child r lg = (Ret (allUserList, None), r1, lg1)"
  shows "set allUserList = finalCandidates ord' prctx (ReviewRequestRule child) r"
    and "distinct allUserList"
    and "pos r1 = pos r + (if Teams (ReviewRequestRule child) = [] then 0 else 1)
                      + (if Organizations (ReviewRequestRule child) = [] then 0 else 1)"
proof -
  have "set allUserList = finalCandidates ord' prctx (ReviewRequestRule child) r
    \<and> distinct allUserList
    \<and> pos r1 = pos r + (if Teams (ReviewRequestRule child) = [] then 0 else 1)
                      + (if Organizations (ReviewRequestRule child) = [] then 0 else 1)"
  proof (cases rule: candidatesForLeaf_cases [where prctx = prctx and ords = ords
        and child = child and r = r and lg = lg and ord' = ord'])
    case (listing e r1 lg1)
    with assms show ?thesis by simp
  next
    case (admins e r1 lg1)
    with assms show ?thesis by simp
  next
    case (candidates l r1' lg1')
    with assms show ?thesis by simp
  qed
  then show "set allUserList = finalCandidates ord' prctx (ReviewRequestRule child) r"
    and "distinct allUserList"
    and "pos r1 = pos r + (if Teams (ReviewRequestRule child) = [] then 0 else 1)
                      + (if Organizations (ReviewRequestRule child) = [] then 0 else 1)"
    by simp_all
qed

lemma candidates_eligible:
  assumes "candidatesForLeaf ords prctx child r lg = (Ret (allUserList, None), r1, lg1)"
    and "u \<in> set allUserList"
  shows "eligible ord' prctx (ReviewRequestRule child) u \<and> u \<noteq> Author prctx"
  using candidates_final(1) [OF assms(1), of ord'] assms(2)
  by (simp add: finalCandidates_def)

text \<open>
  The logins sampled for a leaf are final candidates of the leaf, each at most once, and
  they are all of them when the rule asks for at least as many as there are.
\<close>

lemma requesters_final:
  assumes "requestersForLeaf ords prctx child r lg = (Ret (sel, e), r2, lg2)"
  shows "set sel \<subseteq> finalCandidates ord' prctx (ReviewRequestRule child) r"
    and "distinct sel"
    and "e = None \<Longrightarrow>
         int (card (finalCandidates ord' prctx (ReviewRequestRule child) r))
           \<le> RequiredCount (ReviewRequestRule child) \<Longrightarrow>
         set sel = finalCandidates ord' prctx (ReviewRequestRule child) r"
proof -
  let ?final = "finalCandidates ord' prctx (ReviewRequestRule child) r"
  let ?n = "RequiredCount (ReviewRequestRule child)"
  have "set sel \<subseteq> ?final \<and> distinct sel
    \<and> (e = None \<longrightarrow> int (card ?final) \<le> ?n \<longrightarrow> set sel = ?final)"
  proof (cases rule: requestersForLeaf_cases [where prctx = prctx and ords = ords
        and child = child and r = r and lg = lg and ord' = ord'])
    case (failed e' r1 lg1)
    with assms show ?thesis by auto
  next
    case (sampled allUserList r1 lg1 x r2')
    with assms have x: "x = Ret sel" and e: "e = None"
      by (cases x; simp)+
    from selectRandomUsers_cases [OF sampled(4)] x sampled(2,3)
    have sub: "set sel \<subseteq> ?final" and d: "distinct sel"
      by auto
    have "set sel = ?final" if "int (card ?final) \<le> ?n"
    proof -
      have "length allUserList = card ?final"
        using sampled(2,3) distinct_card by metis
      with that have n: "int (length allUserList) \<le> ?n" by simp
      show ?thesis
      proof (cases "?n = 0")
        case True
        with n have "allUserList = []" by simp
        with sampled(2) sub show ?thesis by auto
      next
        case False
        with n sampled(4) x have "sel = allUserList"
          by (simp add: selectRandomUsers_def)
        with sampled(2) show ?thesis by simp
      qed
    qed
    with sub d show ?thesis by simp
  qed
  then show "set sel \<subseteq> ?final" and "distinct sel"
    and "e = None \<Longrightarrow> int (card ?final) \<le> ?n \<Longrightarrow> set sel = ?final"
    by simp_all
qed

lemma requesters_eligible:
  assumes "requestersForLeaf ords prctx child r lg = (Ret (sel, e), r2, lg2)"
    and "u \<in> set sel"
  shows "eligible ord' prctx (ReviewRequestRule child) u \<and> u \<noteq> Author prctx"
  using requesters_final(1) [OF assms(1), of ord'] assms(2)
  by (auto simp: finalCandidates_def)

lemma requesters_panic:
  assumes "requestersForLeaf ords prctx child r lg = (Panic p, r2, lg2)"
  shows "\<exists>n k. p = UnableToSelect n k"
proof (cases rule: requestersForLeaf_cases [where prctx = prctx and ords = ords
      and child = child and r = r and lg = lg and ord' = undefined])
  case (failed e r1 lg1)
  with assms show ?thesis by simp
next
  case (sampled allUserList r1 lg1 x r2')
  with assms have "x = Panic p"
    by (cases x) simp_all
  with selectRandomUsers_cases [OF sampled(4)] show ?thesis
    by blast
qed

lemma loop_outputs:
  "FindRandomRequesters_loop ords prctx leaves acc r lg = (Ret (out, e), r', lg') \<Longrightarrow>
   u \<in> set out \<Longrightarrow>
     u \<in> set acc \<or>
     (\<exists>leaf \<in> set leaves. eligible ord' prctx (ReviewRequestRule leaf) u \<and> u \<noteq> Author prctx)"
proof (induction leaves arbitrary: ords acc r lg)
  case Nil
  then show ?case by simp
next
  case (Cons child rest)
  obtain x r1 lg1 where body: "requestersForLeaf ords prctx child r lg = (x, r1, lg1)"
    by (cases "requestersForLeaf ords prctx child r lg")
  show ?case
  proof (cases x)
    case (Panic p)
    with body Cons.prems show ?thesis by simp
  next
    case (Ret y)
    obtain sel eo where y: "y = (sel, eo)" by (cases y)
    show ?thesis
    proof (cases eo)
      case (Some e')
      with body Ret y Cons.prems show ?thesis by simp
    next
      case None
      with body Ret y Cons.prems(1)
      have "FindRandomRequesters_loop (\<lambda>k. ords (k + 3)) prctx rest (acc @ sel) r1 lg1
          = (Ret (out, e), r', lg')"
        by simp
      from Cons.IH [OF this Cons.prems(2)]
      have "u \<in> set acc \<or> u \<in> set sel \<or>
        (\<exists>leaf \<in> set rest. eligible ord' prctx (ReviewRequestRule leaf) u \<and> u \<noteq> Author prctx)"
        by auto
      moreover have "eligible ord' prctx (ReviewRequestRule child) u \<and> u \<noteq> Author prctx"
        if "u \<in> set sel"
        using requesters_eligible [OF body [unfolded Ret y] that] .
      ultimately show ?thesis by auto
    qed
  qed
qed

lemma loop_panic:
  "FindRandomRequesters_loop ords prctx leaves acc r lg = (Panic p, r', lg') \<Longrightarrow>
     \<exists>n k. p = UnableToSelect n k"
proof (induction leaves arbitrary: ords acc r lg)
  case Nil
  then show ?case by simp
next
  case (Cons child rest)
  obtain x r1 lg1 where body: "requestersForLeaf ords prctx child r lg = (x, r1, lg1)"
    by (cases "requestersForLeaf ords prctx child r lg")
  show ?case
  proof (cases x)
    case (Panic q)
    with body Cons.prems have "q = p" by simp
    with requesters_panic body Panic show ?thesis by blast
  next
    case (Ret y)
    obtain sel eo where y: "y = (sel, eo)" by (cases y)
    show ?thesis
    proof (cases eo)
      case (Some e')
      with body Ret y Cons.prems show ?thesis by simp
    next
      case None
      with body Ret y Cons.prems
      have "FindRandomRequesters_loop (\<lambda>k. ords (k + 3)) prctx rest (acc @ sel) r1 lg1
          = (Panic p, r', lg')"
        by simp
      from Cons.IH [OF this] show ?thesis .
    qed
  qed
qed

text \<open>Leaves that were processed without error can be cut off the front of the loop.\<close>

lemma loop_append:
  "FindRandomRequesters_loop ords prctx earlier acc r lg = (Ret (acc', None), r1, lg1) \<Longrightarrow>
   FindRandomRequesters_loop ords prctx (earlier @ rest) acc r lg
     = FindRandomRequesters_loop (\<lambda>k. ords (k + 3 * length earlier)) prctx rest acc' r1 lg1"
proof (induction earlier arbitrary: ords acc r lg)
  case Nil
  then show ?case by simp
next
  case (Cons child earlier)
  obtain x r2 lg2 where body: "requestersForLeaf ords prctx child r lg = (x, r2, lg2)"
    by (cases "requestersForLeaf ords prctx child r lg")
  show ?case
  proof (cases x)
    case (Panic p)
    with body Cons.prems show ?thesis by simp
  next
    case (Ret y)
    obtain sel eo where y: "y = (sel, eo)" by (cases y)
    show ?thesis
    proof (cases eo)
      case (Some e)
      with body Ret y Cons.prems show ?thesis by simp
    next
      case None
      with body Ret y Cons.prems
      have "FindRandomRequesters_loop (\<lambda>k. ords (k + 3)) prctx earlier (acc @ sel) r2 lg2
          = (Ret (acc', None), r1, lg1)"
        by simp
      from Cons.IH [OF this] body Ret y None show ?thesis
        by (simp add: ac_simps)
    qed
  qed
qed

text \<open>
  At a leaf where the collaborator listing or the admin selection fails, the body of the
  loop returns an error and the nil list.
\<close>

lemma requesters_fatal:
  assumes "snd (RepositoryCollaborators prctx) \<noteq> None
      \<or> (Admins (ReviewRequestRule leaf)
          \<and> snd (selectAdmins ord' prctx (AdminScope (ReviewRequestRule leaf))) \<noteq> None)"
  shows "\<exists>e r1 lg1. requestersForLeaf ords prctx leaf r lg = (Ret ([], Some e), r1, lg1)"
proof (cases rule: requestersForLeaf_cases [where prctx = prctx and ords = ords
      and child = leaf and r = r and lg = lg and ord' = ord'])
  case (failed e r1 lg1)
  then show ?thesis by blast
next
  case (sampled allUserList r1 lg1 x r2)
  show ?thesis
  proof (cases rule: candidatesForLeaf_cases [where prctx = prctx and ords = ords
        and child = leaf and r = r and lg = lg and ord' = ord'])
    case (listing e r1 lg1)
    with sampled(1) show ?thesis by simp
  next
    case (admins e r1 lg1)
    with sampled(1) show ?thesis by simp
  next
    case (candidates l r1 lg1)
    with assms show ?thesis by auto
  qed
qed

subsection \<open>Lookup failures\<close>

text \<open>The organization step does not depend on the teams of the rule, nor on the log.\<close>

lemma collectOrgMembers_independent:
  assumes "Organizations rule' = Organizations rule"
  shows "fst (collectOrgMembers prctx rule' us r lg') = fst (collectOrgMembers prctx rule us r lg)
    \<and> fst (snd (collectOrgMembers prctx rule' us r lg'))
        = fst (snd (collectOrgMembers prctx rule us r lg))"
  using assms
  by (simp add: collectOrgMembers_def split: prod.splits option.splits res.splits)

lemma collectOrgMembers_log:
  "collectOrgMembers prctx rule us r lg = (x, r', lg') \<Longrightarrow> set lg \<subseteq> set lg'"
  by (auto simp: collectOrgMembers_def split: prod.splits option.splits res.splits if_splits)

text \<open>The later steps read neither the teams nor the organizations of the rule.\<close>

lemma later_steps_independent:
  "collectAdmins ord prctx (rule\<lparr>Teams := ts\<rparr>) m us = collectAdmins ord prctx rule m us"
  "collectAdmins ord prctx (rule\<lparr>Organizations := os\<rparr>) m us = collectAdmins ord prctx rule m us"
  "collectWriteCollaborators ord (rule\<lparr>Teams := ts\<rparr>) m us
     = collectWriteCollaborators ord rule m us"
  "collectWriteCollaborators ord (rule\<lparr>Organizations := os\<rparr>) m us
     = collectWriteCollaborators ord rule m us"
  by (simp_all add: collectAdmins_def collectWriteCollaborators_def)

lemma candidates_succeed:
  assumes "snd (RepositoryCollaborators prctx) = None"
    and "Admins (ReviewRequestRule child) \<longrightarrow>
           snd (selectAdmins ord' prctx (AdminScope (ReviewRequestRule child))) = None"
  shows "\<exists>l r1 lg1. candidatesForLeaf ords prctx child r lg = (Ret (l, None), r1, lg1)"
proof (cases rule: candidatesForLeaf_cases [where prctx = prctx and ords = ords
      and child = child and r = r and lg = lg and ord' = ord'])
  case (listing e r1 lg1)
  with assms show ?thesis by simp
next
  case (admins e r1 lg1)
  with assms show ?thesis by simp
next
  case (candidates l r1 lg1)
  then show ?thesis by blast
qed

lemma team_failure:
  assumes teams: "Teams rule \<noteq> []"
    and fails: "snd (TeamMembers prctx (sampledTeam rule r)) = Some e"
  shows "fst (candidatesForLeaf ords prctx (Result st err (rule\<lparr>Teams := []\<rparr>) cs)
                (r\<lparr>pos := pos r + 1\<rparr>) lg)
           = fst (candidatesForLeaf ords prctx (Result st err rule cs) r lg)"
    and "(Wrap e (''failed to get member listing for team '' @ sampledTeam rule r),
          ''Unable to get member listing for teams, skipping team member selection'')
           \<in> set (snd (snd (candidatesForLeaf ords prctx (Result st err rule cs) r lg)))"
proof -
  let ?w = "(Wrap e (''failed to get member listing for team '' @ sampledTeam rule r),
          ''Unable to get member listing for teams, skipping team member selection'')"
  let ?rule' = "rule\<lparr>Teams := []\<rparr>"
  let ?r1 = "r\<lparr>pos := pos r + 1\<rparr>"
  let ?us = "collectUsers rule []"
  obtain ms where "TeamMembers prctx (sampledTeam rule r) = (ms, Some e)"
    using fails by (cases "TeamMembers prctx (sampledTeam rule r)") simp
  then have team: "collectTeamMembers prctx rule ?us r lg = (Ret ?us, ?r1, lg @ [?w])"
    by (simp add: collectTeamMembers_nonempty [OF teams])
  have team': "collectTeamMembers prctx ?rule' (collectUsers ?rule' []) ?r1 lg = (Ret ?us, ?r1, lg)"
    by (simp add: collectTeamMembers_def collectUsers_def)
  obtain us2 r2 lg2 where org: "collectOrgMembers prctx rule ?us ?r1 (lg @ [?w]) = (Ret us2, r2, lg2)"
    using collectOrgMembers_returns [of prctx rule ?us ?r1 "lg @ [?w]"] by blast
  obtain us2' r2' lg2' where org': "collectOrgMembers prctx ?rule' ?us ?r1 lg = (Ret us2', r2', lg2')"
    using collectOrgMembers_returns [of prctx ?rule' ?us ?r1 lg] by blast
  from collectOrgMembers_independent [of ?rule' rule prctx ?us ?r1 lg "lg @ [?w]"] org org'
  have "us2' = us2"
    by simp
  with org' have org'': "collectOrgMembers prctx ?rule' ?us ?r1 lg = (Ret us2, r2', lg2')"
    by simp
  have run: "candidatesForLeaf ords prctx (Result st err rule cs) r lg =
     (Ret (case RepositoryCollaborators prctx of
             (m, Some err) \<Rightarrow> ([], Some (Wrap err ''Unable to list repository collaborators''))
           | (m, None) \<Rightarrow>
               (case collectAdmins (ords 1) prctx rule m
                       (collectWriteCollaborators (ords 0) rule m us2) of
                  (x, Some err) \<Rightarrow> ([], Some err)
                | ((us4, cs), None) \<Rightarrow> (filterCandidates (ords 2) prctx us4 cs, None))),
      r2, lg2)"
    by (rule candidatesForLeaf_stages_Result [OF team org])
  have run': "candidatesForLeaf ords prctx (Result st err ?rule' cs) ?r1 lg =
     (Ret (case RepositoryCollaborators prctx of
             (m, Some err) \<Rightarrow> ([], Some (Wrap err ''Unable to list repository collaborators''))
           | (m, None) \<Rightarrow>
               (case collectAdmins (ords 1) prctx ?rule' m
                       (collectWriteCollaborators (ords 0) ?rule' m us2) of
                  (x, Some err) \<Rightarrow> ([], Some err)
                | ((us4, cs), None) \<Rightarrow> (filterCandidates (ords 2) prctx us4 cs, None))),
      r2', lg2')"
    by (rule candidatesForLeaf_stages_Result [OF team' org''])
  show "fst (candidatesForLeaf ords prctx (Result st err ?rule' cs) ?r1 lg)
           = fst (candidatesForLeaf ords prctx (Result st err rule cs) r lg)"
    unfolding run run'
    by (simp add: later_steps_independent cong: prod.case_cong option.case_cong)
  from collectOrgMembers_log [OF org] have "?w \<in> set lg2" by auto
  then show "?w \<in> set (snd (snd (candidatesForLeaf ords prctx (Result st err rule cs) r lg)))"
    unfolding run by simp
qed

lemma org_failure:
  assumes orgs: "Organizations rule \<noteq> []"
    and fails: "snd (OrganizationMembers prctx (sampledOrg rule r)) = Some e"
  shows "fst (candidatesForLeaf ords prctx (Result st err (rule\<lparr>Organizations := []\<rparr>) cs) r lg)
           = fst (candidatesForLeaf ords prctx (Result st err rule cs) r lg)"
    and "(Wrap e (''failed to get member listing for org '' @ sampledOrg rule r),
          ''Unable to get member listing for org, skipping org member selection'')
           \<in> set (snd (snd (candidatesForLeaf ords prctx (Result st err rule cs) r lg)))"
proof -
  let ?w = "(Wrap e (''failed to get member listing for org '' @ sampledOrg rule r),
          ''Unable to get member listing for org, skipping org member selection'')"
  let ?rule' = "rule\<lparr>Organizations := []\<rparr>"
  let ?us = "collectUsers rule []"
  let ?r1 = "if Teams rule = [] then r else r\<lparr>pos := pos r + 1\<rparr>"
  obtain us1 lg1 where team: "collectTeamMembers prctx rule ?us r lg = (Ret us1, ?r1, lg1)"
    using collectTeamMembers_Ret [of prctx rule ?us r lg] by blast
  have "collectUsers ?rule' [] = ?us"
    by (simp add: collectUsers_def)
  then have "collectTeamMembers prctx ?rule' (collectUsers ?rule' []) r lg
      = collectTeamMembers prctx rule ?us r lg"
    by (simp add: collectTeamMembers_def)
  with team have team': "collectTeamMembers prctx ?rule' (collectUsers ?rule' []) r lg
      = (Ret us1, ?r1, lg1)"
    by simp
  have drawn: "Organizations rule ! (src ?r1 (pos ?r1) mod length (Organizations rule))
      = sampledOrg rule r"
    by (simp add: sampledOrg_def)
  obtain ms where "OrganizationMembers prctx (sampledOrg rule r) = (ms, Some e)"
    using fails by (cases "OrganizationMembers prctx (sampledOrg rule r)") simp
  then have org: "collectOrgMembers prctx rule us1 ?r1 lg1
      = (Ret us1, ?r1\<lparr>pos := pos ?r1 + 1\<rparr>, lg1 @ [?w])"
    by (simp only: collectOrgMembers_nonempty [OF orgs] drawn) simp
  have org': "collectOrgMembers prctx ?rule' us1 ?r1 lg1 = (Ret us1, ?r1, lg1)"
    by (simp add: collectOrgMembers_def)
  have run: "candidatesForLeaf ords prctx (Result st err rule cs) r lg =
     (Ret (case RepositoryCollaborators prctx of
             (m, Some err) \<Rightarrow> ([], Some (Wrap err ''Unable to list repository collaborators''))
           | (m, None) \<Rightarrow>
               (case collectAdmins (ords 1) prctx rule m
                       (collectWriteCollaborators (ords 0) rule m us1) of
                  (x, Some err) \<Rightarrow> ([], Some err)
                | ((us4, cs), None) \<Rightarrow> (filterCandidates (ords 2) prctx us4 cs, None))),
      ?r1\<lparr>pos := pos ?r1 + 1\<rparr>, lg1 @ [?w])"
    by (rule candidatesForLeaf_stages_Result [OF team org])
  have run': "candidatesForLeaf ords prctx (Result st err ?rule' cs) r lg =
     (Ret (case RepositoryCollaborators prctx of
             (m, Some err) \<Rightarrow> ([], Some (Wrap err ''Unable to list repository collaborators''))
           | (m, None) \<Rightarrow>
               (case collectAdmins (ords 1) prctx ?rule' m
                       (collectWriteCollaborators (ords 0) ?rule' m us1) of
                  (x, Some err) \<Rightarrow> ([], Some err)
                | ((us4, cs), None) \<Rightarrow> (filterCandidates (ords 2) prctx us4 cs, None))),
      ?r1, lg1)"
    by (rule candidatesForLeaf_stages_Result [OF team' org'])
  show "fst (candidatesForLeaf ords prctx (Result st err ?rule' cs) r lg)
           = fst (candidatesForLeaf ords prctx (Result st err rule cs) r lg)"
    unfolding run run'
    by (simp add: later_steps_independent cong: prod.case_cong option.case_cong)
  show "?w \<in> set (snd (snd (candidatesForLeaf ords prctx (Result st err rule cs) r lg)))"
    unfolding run by simp
qed

subsection \<open>What the sampler returns\<close>

text \<open>
  C2, as stated, fails in its third case, \<open>0 < n < len(candidates)\<close>: when the
  generator keeps returning an index already chosen the function panics and returns
  nothing, and distinct indices of a list with repeated logins give repeated logins.
  For \<open>n < 0\<close> the result is empty.
\<close>

theorem selectRandomUsers_not_n_distinct:
  "fst (selectRandomUsers 2 [''a'', ''b'', ''c''] constRand) = Panic (UnableToSelect 2 3)
   \<and> fst (selectRandomUsers 2 [''a'', ''a'', ''b''] countRand) = Ret [''a'', ''a'']
   \<and> fst (selectRandomUsers (- 1) [''a'', ''b'', ''c''] countRand) = Ret []"
  by (simp add: selectRandomUsers_def selectRandomUsers_loop.simps selectRandomUsers_inner.simps
      Intn_def index_def constRand_def countRand_def)

text \<open>
  C2, amended: \<open>selectRandomUsers(n, candidates, rng)\<close> returns the empty sequence when
  \<open>n = 0\<close> (and when \<open>n < 0\<close>); returns \<open>candidates\<close> itself, in the given order, when
  \<open>n \<ge> len(candidates)\<close>; and when \<open>0 < n < len(candidates)\<close> it either panics with
  "Unable to select random value" or returns exactly \<open>n\<close> logins, read at \<open>n\<close> distinct
  indices of \<open>candidates\<close>. Whatever is returned consists of members of \<open>candidates\<close>,
  is no longer than \<open>candidates\<close>, is no longer than \<open>n\<close> when \<open>n \<ge> 0\<close>, and has no
  duplicates when \<open>candidates\<close> has none -- as is the case in \<open>FindRandomRequesters\<close>,
  where the logins sampled for a leaf never repeat.
\<close>

theorem selectRandomUsers_result:
  assumes "selectRandomUsers n users r = (out, r')"
  shows "(n = 0 \<longrightarrow> out = Ret [] \<and> r' = r)
    \<and> (n < 0 \<longrightarrow> out = Ret [] \<and> r' = r)
    \<and> (n \<ge> int (length users) \<longrightarrow> out = Ret (if n = 0 then [] else users) \<and> r' = r)
    \<and> (0 < n \<and> n < int (length users) \<longrightarrow>
          out = Panic (UnableToSelect n (length users)) \<or>
          (\<exists>js. out = Ret (map ((!) users) js) \<and> length js = nat n \<and> distinct js
                \<and> list_all (\<lambda>k. k < length users) js))
    \<and> (\<forall>sels. out = Ret sels \<longrightarrow>
          set sels \<subseteq> set users \<and> length sels \<le> length users
          \<and> (0 \<le> n \<longrightarrow> int (length sels) \<le> n)
          \<and> (distinct users \<longrightarrow> distinct sels))
    \<and> (\<forall>ords prctx child r0 lg sel e r1 lg1.
          requestersForLeaf ords prctx child r0 lg = (Ret (sel, e), r1, lg1) \<longrightarrow> distinct sel)"
proof -
  have sampled: "\<forall>ords prctx child r0 lg sel e r1 lg1.
          requestersForLeaf ords prctx child r0 lg = (Ret (sel, e), r1, lg1) \<longrightarrow> distinct sel"
    using requesters_final(2) by blast
  consider (zero) "n = 0" | (neg) "n < 0" | (all) "n \<noteq> 0" "n \<ge> int (length users)"
    | (some) "0 < n" "n < int (length users)"
    by linarith
  then show ?thesis
  proof cases
    case zero
    with assms sampled show ?thesis by (auto simp: selectRandomUsers_def)
  next
    case neg
    with assms have "out = Ret []" and "r' = r"
      by (simp_all add: selectRandomUsers_def selectRandomUsers_loop.simps [of n users 0])
    with neg sampled show ?thesis by auto
  next
    case all
    with assms have "out = Ret users" and "r' = r"
      by (simp_all add: selectRandomUsers_def)
    with all sampled show ?thesis by auto
  next
    case some
    from selectRandomUsers_drawn [OF some assms]
    have "out = Panic (UnableToSelect n (length users)) \<or>
      (\<exists>js. out = Ret (map ((!) users) js) \<and> distinct js \<and>
          list_all (\<lambda>k. k < length users) js \<and> length js = nat n)" by simp
    then show ?thesis
    proof
      assume "out = Panic (UnableToSelect n (length users))"
      with some sampled show ?thesis by simp
    next
      assume "\<exists>js. out = Ret (map ((!) users) js) \<and> distinct js \<and>
          list_all (\<lambda>k. k < length users) js \<and> length js = nat n"
      then obtain js where js: "out = Ret (map ((!) users) js)" "distinct js"
          "list_all (\<lambda>k. k < length users) js" "length js = nat n" by blast
      note sample = nth_sample [OF js(2,3)]
      have "length js \<le> length users"
        using js(4) some by simp
      with js some sample sampled show ?thesis by auto
    qed
  qed
qed

theorem selectRandomUsers_result_witness:
  "selectRandomUsers 2 [''a'', ''b'', ''c''] lateRand = (Ret [''a'', ''b''], lateRand\<lparr>pos := 12\<rparr>)
   \<and> (\<exists>js. [''a'', ''b''] = map ((!) [''a'', ''b'', ''c'']) js \<and> length js = 2 \<and> distinct js
          \<and> list_all (\<lambda>k. k < length [''a'', ''b'', ''c'']) js)
   \<and> set [''a'', ''b''] \<subseteq> set [''a'', ''b'', ''c'']"
proof -
  have run: "selectRandomUsers 2 [''a'', ''b'', ''c''] lateRand
      = (Ret [''a'', ''b''], lateRand\<lparr>pos := 12\<rparr>)"
    by (simp add: selectRandomUsers_def selectRandomUsers_loop.simps
        selectRandomUsers_inner.simps Intn_def index_def lateRand_def)
  from selectRandomUsers_result [OF run] run show ?thesis
    by simp
qed

subsection \<open>Eligible candidates only\<close>

text \<open>
  C1: for every pending leaf that \<open>FindRandomRequesters\<close> processes, every login of the
  final candidate list is in the eligibility set of the leaf (the repository
  collaborator mapping, or the resolved admins when the rule asks for admins) and is not
  the author of the pull request; so is every login sampled for the leaf, and every
  login of the returned output is an eligible login of one of the pending leaves and is
  not the author. This holds whatever the orders \<open>ords\<close> of the ranges of the call are;
  the eligibility set is the same for every order \<open>ord'\<close>.
\<close>

theorem candidates_eligible_not_author:
  "(candidatesForLeaf ords prctx child r lg = (Ret (allUserList, None), r1, lg1) \<longrightarrow>
      (\<forall>u \<in> set allUserList.
         eligible ord' prctx (ReviewRequestRule child) u \<and> u \<noteq> Author prctx))
   \<and> (requestersForLeaf ords prctx child r lg = (Ret (sel, e), r2, lg2) \<longrightarrow>
      (\<forall>u \<in> set sel. eligible ord' prctx (ReviewRequestRule child) u \<and> u \<noteq> Author prctx))
   \<and> (FindRandomRequesters ords prctx result r lg = (Ret (out, e'), r3, lg3) \<longrightarrow>
      Author prctx \<notin> set out
      \<and> (\<forall>u \<in> set out. \<exists>leaf \<in> set (findLeafChildren result).
            eligible ord' prctx (ReviewRequestRule leaf) u))"
proof (intro conjI impI ballI)
  fix u assume "candidatesForLeaf ords prctx child r lg = (Ret (allUserList, None), r1, lg1)"
    and "u \<in> set allUserList"
  then show "eligible ord' prctx (ReviewRequestRule child) u" and "u \<noteq> Author prctx"
    using candidates_eligible by blast+
next
  fix u assume "requestersForLeaf ords prctx child r lg = (Ret (sel, e), r2, lg2)"
    and "u \<in> set sel"
  then show "eligible ord' prctx (ReviewRequestRule child) u" and "u \<noteq> Author prctx"
    using requesters_eligible by blast+
next
  assume run: "FindRandomRequesters ords prctx result r lg = (Ret (out, e'), r3, lg3)"
  then have loop: "FindRandomRequesters_loop ords prctx (findLeafChildren result) [] r lg
      = (Ret (out, e'), r3, lg3)"
    by (simp add: FindRandomRequesters_def)
  from loop_outputs [OF loop, of _ ord'] show "Author prctx \<notin> set out"
    by fastforce
  fix u assume "u \<in> set out"
  with loop_outputs [OF loop, of u ord'] show "\<exists>leaf \<in> set (findLeafChildren result).
            eligible ord' prctx (ReviewRequestRule leaf) u"
    by fastforce
qed

theorem candidates_eligible_not_author_witness:
  "candidatesForLeaf keyOrders orgContext (pendingLeaf (adminsRule AdminScopeOrg)) constRand []
     = (Ret ([''y''], None), constRand\<lparr>pos := 1\<rparr>,
        [(Wrap (Error ''not found'') ''failed to get member listing for team o/t'',
          ''Unable to get member listing for teams, skipping team member selection'')])
   \<and> requestersForLeaf keyOrders orgContext (pendingLeaf (adminsRule AdminScopeOrg)) constRand []
     = (Ret ([''y''], None), constRand\<lparr>pos := 1\<rparr>,
        [(Wrap (Error ''not found'') ''failed to get member listing for team o/t'',
          ''Unable to get member listing for teams, skipping team member selection'')])
   \<and> FindRandomRequesters keyOrders orgContext (pendingLeaf (adminsRule AdminScopeOrg)) constRand []
     = (Ret ([''y''], None), constRand\<lparr>pos := 1\<rparr>,
        [(Wrap (Error ''not found'') ''failed to get member listing for team o/t'',
          ''Unable to get member listing for teams, skipping team member selection'')])
   \<and> eligible keyOrder orgContext (adminsRule AdminScopeOrg) ''y''
   \<and> ''y'' \<noteq> Author orgContext
   \<and> Author orgContext \<notin> set [''y'']"
proof -
  let ?leaf = "pendingLeaf (adminsRule AdminScopeOrg)"
  let ?out = "(Ret ([''y''], None), constRand\<lparr>pos := 1\<rparr>,
        [(Wrap (Error ''not found'') ''failed to get member listing for team o/t'',
          ''Unable to get member listing for teams, skipping team member selection'')])"
  have c: "candidatesForLeaf keyOrders orgContext ?leaf constRand [] = ?out"
    by (simp add: model_defs example_defs Let_def)
  have b: "requestersForLeaf keyOrders orgContext ?leaf constRand [] = ?out"
    by (simp add: model_defs example_defs Let_def)
  have f: "FindRandomRequesters keyOrders orgContext ?leaf constRand [] = ?out"
    by (simp add: model_defs example_defs Let_def)
  have rule: "ReviewRequestRule ?leaf = adminsRule AdminScopeOrg"
    by (simp add: pendingLeaf_def)
  from candidates_eligible_not_author [of keyOrders orgContext ?leaf constRand "[]" "[''y'']"
      "constRand\<lparr>pos := 1\<rparr>" "snd (snd ?out)" keyOrder "[''y'']" None "constRand\<lparr>pos := 1\<rparr>"
      "snd (snd ?out)" ?leaf "[''y'']" None "constRand\<lparr>pos := 1\<rparr>" "snd (snd ?out)"]
    c b f rule
  show ?thesis by simp
qed

text \<open>
  C4: for a leaf whose rule has \<open>admins = true\<close> and whose processing succeeds, the admin
  selection succeeded and every login returned for the leaf is one of the admins it
  resolved for \<open>rule.adminScope\<close>; a login that is not among them is not returned,
  whichever source added it to the candidates. The admins resolved are the same set for
  every order \<open>ord'\<close> of the range in \<open>selectAdmins\<close>.
\<close>

theorem admins_only:
  assumes "Admins (ReviewRequestRule child)"
    and "requestersForLeaf ords prctx child r lg = (Ret (sel, None), r2, lg2)"
  shows "snd (selectAdmins ord' prctx (AdminScope (ReviewRequestRule child))) = None
    \<and> set sel \<subseteq> set (fst (selectAdmins ord' prctx (AdminScope (ReviewRequestRule child))))
    \<and> (\<forall>u. u \<notin> set (fst (selectAdmins ord' prctx (AdminScope (ReviewRequestRule child))))
          \<longrightarrow> u \<notin> set sel)"
proof -
  have members: "set sel \<subseteq> set (fst (selectAdmins ord' prctx (AdminScope (ReviewRequestRule child))))"
    using requesters_eligible [OF assms(2), of _ ord'] assms(1) by (auto simp: eligible_def)
  have "snd (selectAdmins ord' prctx (AdminScope (ReviewRequestRule child))) = None"
  proof (cases rule: requestersForLeaf_cases [where prctx = prctx and ords = ords
        and child = child and r = r and lg = lg and ord' = ord'])
    case (failed e r1 lg1)
    with assms(2) show ?thesis by simp
  next
    case (sampled allUserList r1 lg1 x r2')
    show ?thesis
    proof (cases rule: candidatesForLeaf_cases [where prctx = prctx and ords = ords
          and child = child and r = r and lg = lg and ord' = ord'])
      case (listing e r1 lg1)
      with sampled(1) show ?thesis by simp
    next
      case (admins e r1 lg1)
      with sampled(1) show ?thesis by simp
    next
      case (candidates l r1 lg1)
      with assms(1) show ?thesis by simp
    qed
  qed
  with members show ?thesis by blast
qed

theorem admins_only_witness:
  "Admins (adminsRule AdminScopeOrg)
   \<and> fst (requestersForLeaf keyOrders orgContext (pendingLeaf (adminsRule AdminScopeOrg)) constRand [])
       = Ret ([''y''], None)
   \<and> fst (selectAdmins keyOrder orgContext AdminScopeOrg) = [''x'', ''y'']
   \<and> ''z'' \<in> set (Users (adminsRule AdminScopeOrg))
   \<and> set [''y''] \<subseteq> set (fst (selectAdmins keyOrder orgContext AdminScopeOrg))
   \<and> ''z'' \<notin> set [''y'']"
proof -
  let ?leaf = "pendingLeaf (adminsRule AdminScopeOrg)"
  have rule: "ReviewRequestRule ?leaf = adminsRule AdminScopeOrg"
    by (simp add: pendingLeaf_def)
  have a: "Admins (ReviewRequestRule ?leaf)"
    by (simp add: pendingLeaf_def adminsRule_def)
  have b: "requestersForLeaf keyOrders orgContext ?leaf constRand []
     = (Ret ([''y''], None), constRand\<lparr>pos := 1\<rparr>,
        [(Wrap (Error ''not found'') ''failed to get member listing for team o/t'',
          ''Unable to get member listing for teams, skipping team member selection'')])"
    by (simp add: model_defs example_defs Let_def)
  have s: "fst (selectAdmins keyOrder orgContext AdminScopeOrg) = [''x'', ''y'']"
    by (simp add: model_defs example_defs)
  from admins_only [OF a b, of keyOrder] a b s rule show ?thesis
    by (simp add: adminsRule_def)
qed

subsection \<open>Draws and indices\<close>

lemma selectRandomUsers_no_draw:
  assumes "snd (selectRandomUsers n users r) \<noteq> r"
  shows "0 < n \<and> n < int (length users)"
proof (rule ccontr)
  assume "\<not> (0 < n \<and> n < int (length users))"
  then consider "n = 0" | "n < 0" | "n \<noteq> 0" "n \<ge> int (length users)"
    by linarith
  then have "snd (selectRandomUsers n users r) = r"
    by cases
      (simp_all add: selectRandomUsers_def selectRandomUsers_loop.simps [of n users 0])
  with assms show False by simp
qed

text \<open>
  C9: no draw of the core has a bound that is not positive, and no index drawn is out of
  the bounds of the list it reads. In the model a draw with bound zero and a read out of
  range are the panics \<open>IntnInvalidArgument\<close> and \<open>IndexOutOfRange\<close>:
  \<open>selectTeamMembers\<close> and \<open>selectOrgMembers\<close> would panic on an empty list, but the
  steps that call them never panic and leave the generator as it is unless the list has
  an element; \<open>selectRandomUsers\<close> leaves the generator as it is unless
  \<open>0 < n < len(users)\<close>; and neither \<open>selectRandomUsers\<close> nor \<open>FindRandomRequesters\<close>
  ever ends in one of these two panics.
\<close>

theorem draws_within_bounds:
  "fst (selectTeamMembers prctx [] r) = Panic IntnInvalidArgument
   \<and> fst (selectOrgMembers prctx [] r) = Panic IntnInvalidArgument
   \<and> (\<forall>p. fst (collectTeamMembers prctx rule allUsers r lg) \<noteq> Panic p)
   \<and> (\<forall>p. fst (collectOrgMembers prctx rule allUsers r lg) \<noteq> Panic p)
   \<and> (fst (snd (collectTeamMembers prctx rule allUsers r lg)) = r \<or> 0 < length (Teams rule))
   \<and> (fst (snd (collectOrgMembers prctx rule allUsers r lg)) = r
        \<or> 0 < length (Organizations rule))
   \<and> (snd (selectRandomUsers n users r) = r \<or> (0 < n \<and> n < int (length users)))
   \<and> fst (selectRandomUsers n users r) \<notin> {Panic IntnInvalidArgument, Panic IndexOutOfRange}
   \<and> fst (FindRandomRequesters ords prctx result r lg)
        \<notin> {Panic IntnInvalidArgument, Panic IndexOutOfRange}"
proof (intro conjI allI)
  show "fst (selectTeamMembers prctx [] r) = Panic IntnInvalidArgument"
    by (simp add: selectTeamMembers_def Intn_def)
  show "fst (selectOrgMembers prctx [] r) = Panic IntnInvalidArgument"
    by (simp add: selectOrgMembers_def Intn_def)
  show "fst (collectTeamMembers prctx rule allUsers r lg) \<noteq> Panic p" for p
    using collectTeamMembers_Ret [of prctx rule allUsers r lg] by auto
  show "fst (collectOrgMembers prctx rule allUsers r lg) \<noteq> Panic p" for p
    using collectOrgMembers_returns [of prctx rule allUsers r lg] by auto
  show "fst (snd (collectTeamMembers prctx rule allUsers r lg)) = r \<or> 0 < length (Teams rule)"
    using collectTeamMembers_Ret [of prctx rule allUsers r lg] by (cases "Teams rule = []") auto
  show "fst (snd (collectOrgMembers prctx rule allUsers r lg)) = r
        \<or> 0 < length (Organizations rule)"
    using collectOrgMembers_returns [of prctx rule allUsers r lg]
    by (cases "Organizations rule = []") auto
  show "snd (selectRandomUsers n users r) = r \<or> (0 < n \<and> n < int (length users))"
    using selectRandomUsers_no_draw [of n users r] by blast
  show "fst (selectRandomUsers n users r) \<notin> {Panic IntnInvalidArgument, Panic IndexOutOfRange}"
    using selectRandomUsers_cases [of n users r] by (cases "selectRandomUsers n users r") auto
  show "fst (FindRandomRequesters ords prctx result r lg)
        \<notin> {Panic IntnInvalidArgument, Panic IndexOutOfRange}"
  proof (cases "FindRandomRequesters ords prctx result r lg")
    case (fields x r' lg')
    show ?thesis
    proof (cases x)
      case (Ret y)
      with fields show ?thesis by simp
    next
      case (Panic p)
      with fields loop_panic [of ords prctx "findLeafChildren result" "[]" r lg p r' lg']
      show ?thesis by (auto simp: FindRandomRequesters_def)
    qed
  qed
qed

subsection \<open>One team and one organization\<close>

text \<open>Among \<open>m * n\<close> consecutive values, every residue modulo \<open>n\<close> occurs \<open>m\<close> times.\<close>

lemma card_residue:
  assumes "j < n"
  shows "card {x::nat. x < m * n \<and> x mod n = j} = m"
proof -
  have "{x. x < m * n \<and> x mod n = j} = (\<lambda>q. q * n + j) ` {..<m}"
  proof (intro set_eqI iffI)
    fix x assume "x \<in> {x. x < m * n \<and> x mod n = j}"
    then have x: "x < m * n" "x mod n = j" by simp_all
    from x(1) have "x div n < m"
      using assms by (simp add: less_mult_imp_div_less)
    moreover have "x = (x div n) * n + j"
      using x(2) by (metis div_mult_mod_eq)
    ultimately show "x \<in> (\<lambda>q. q * n + j) ` {..<m}" by blast
  next
    fix x assume "x \<in> (\<lambda>q. q * n + j) ` {..<m}"
    then obtain q where q: "q < m" "x = q * n + j" by blast
    have "q * n + j < Suc q * n"
      using assms by simp
    also have "\<dots> \<le> m * n"
      using q(1) by (intro mult_le_mono1) simp
    finally have "x < m * n" using q(2) by simp
    moreover have "x mod n = j"
      using q(2) assms by simp
    ultimately show "x \<in> {x. x < m * n \<and> x mod n = j}" by simp
  qed
  moreover have "inj_on (\<lambda>q. q * n + j) {..<m}"
    using assms by (auto simp: inj_on_def)
  ultimately show ?thesis
    by (simp add: card_image)
qed

lemma card_nth_residue:
  assumes "distinct xs" and "t \<in> set xs"
  shows "card {x. x < m * length xs \<and> xs ! (x mod length xs) = t} = m"
proof -
  from assms(2) obtain j where j: "j < length xs" "xs ! j = t"
    by (auto simp: in_set_conv_nth)
  have "xs ! (x mod length xs) = t \<longleftrightarrow> x mod length xs = j" for x
  proof -
    have "xs \<noteq> []"
      using j(1) by auto
    then have "x mod length xs < length xs"
      by simp
    with assms(1) j show ?thesis
      by (auto simp: nth_eq_iff_index_eq)
  qed
  then have "{x. x < m * length xs \<and> xs ! (x mod length xs) = t}
      = {x. x < m * length xs \<and> x mod length xs = j}"
    by simp
  with card_residue [OF j(1), of m] show ?thesis
    by simp
qed

text \<open>
  C5: when \<open>rule.teams\<close> is not empty, the aggregator makes one draw, with bound
  \<open>len(rule.teams)\<close>, and looks up the one team at the index drawn; with
  \<open>rule.organizations\<close> it does the same, with the next draw. The final candidates of the
  leaf are then exactly the eligible logins, other than the author, among the explicit
  users, the members of that one team, the members of that one organization, the write
  collaborators and the admins -- the members of the other teams and organizations are
  not added -- and the aggregation makes one draw for the teams and one for the
  organizations, no more. The logins sampled for the leaf, and the output of
  \<open>FindRandomRequesters\<close> on a tree that is this one leaf, are among these final
  candidates, and are all of them when the rule asks for at least that many. The draw
  is uniform as far as the generator is: the index is the outcome of \<open>Intn\<close> itself,
  over \<open>m * n\<close> consecutive raw values of the generator each of the \<open>n\<close> indices is the
  outcome exactly \<open>m\<close> times, and so each of the configured teams (organizations), when
  they are listed once each, is the one picked for exactly \<open>m\<close> of \<open>m * len(rule.teams)\<close>
  (\<open>m * len(rule.organizations)\<close>) raw values.
\<close>

theorem one_team_one_org_sampled:
  "(Teams rule \<noteq> [] \<longrightarrow>
      (\<exists>k < length (Teams rule).
         Intn (length (Teams rule)) r = (Ret k, r\<lparr>pos := pos r + 1\<rparr>)
         \<and> sampledTeam rule r = Teams rule ! k
         \<and> fst (selectTeamMembers prctx (Teams rule) r)
             = Ret (case TeamMembers prctx (Teams rule ! k) of
                      (ms, None) \<Rightarrow> (ms, None)
                    | (ms, Some err) \<Rightarrow>
                        ([], Some (Wrap err (''failed to get member listing for team ''
                                               @ Teams rule ! k))))))
   \<and> (Organizations rule \<noteq> [] \<longrightarrow>
      (\<exists>k < length (Organizations rule).
         Intn (length (Organizations rule)) (if Teams rule = [] then r else r\<lparr>pos := pos r + 1\<rparr>)
           = (Ret k, r\<lparr>pos := (if Teams rule = [] then pos r else pos r + 1) + 1\<rparr>)
         \<and> sampledOrg rule r = Organizations rule ! k
         \<and> fst (selectOrgMembers prctx (Organizations rule)
                  (if Teams rule = [] then r else r\<lparr>pos := pos r + 1\<rparr>))
             = Ret (case OrganizationMembers prctx (Organizations rule ! k) of
                      (ms, None) \<Rightarrow> (ms, None)
                    | (ms, Some err) \<Rightarrow>
                        ([], Some (Wrap err (''failed to get member listing for org ''
                                               @ Organizations rule ! k))))))
   \<and> (candidatesForLeaf ords prctx (Result st err rule cs) r lg = (Ret (l, None), r1, lg1) \<longrightarrow>
        set l = finalCandidates ord' prctx rule r \<and> distinct l
        \<and> pos r1 = pos r + (if Teams rule = [] then 0 else 1)
                          + (if Organizations rule = [] then 0 else 1))
   \<and> (requestersForLeaf ords prctx (Result st err rule cs) r lg = (Ret (sel, None), r2, lg2) \<longrightarrow>
        set sel \<subseteq> finalCandidates ord' prctx rule r
        \<and> (int (card (finalCandidates ord' prctx rule r)) \<le> RequiredCount rule \<longrightarrow>
             set sel = finalCandidates ord' prctx rule r))
   \<and> (FindRandomRequesters ords prctx (Result StatusPending None rule []) r lg
         = (Ret (out, None), r3, lg3) \<longrightarrow>
        set out \<subseteq> finalCandidates ord' prctx rule r
        \<and> (int (card (finalCandidates ord' prctx rule r)) \<le> RequiredCount rule \<longrightarrow>
             set out = finalCandidates ord' prctx rule r))
   \<and> (\<forall>n j m. j < n \<longrightarrow>
        card {x. x < m * n \<and> fst (Intn n (r\<lparr>src := (\<lambda>i. x)\<rparr>)) = Ret j} = m)
   \<and> (distinct (Teams rule) \<longrightarrow>
        (\<forall>t \<in> set (Teams rule). \<forall>m.
           card {x. x < m * length (Teams rule) \<and> sampledTeam rule (r\<lparr>src := (\<lambda>i. x)\<rparr>) = t} = m))
   \<and> (distinct (Organizations rule) \<longrightarrow>
        (\<forall>t \<in> set (Organizations rule). \<forall>m.
           card {x. x < m * length (Organizations rule)
                    \<and> sampledOrg rule (r\<lparr>src := (\<lambda>i. x)\<rparr>) = t} = m))"
proof (intro conjI impI allI)
  assume teams: "Teams rule \<noteq> []"
  let ?k = "src r (pos r) mod length (Teams rule)"
  have "?k < length (Teams rule)"
    using teams by simp
  moreover have "Intn (length (Teams rule)) r = (Ret ?k, r\<lparr>pos := pos r + 1\<rparr>)"
    using teams by (simp add: Intn_def)
  moreover have "sampledTeam rule r = Teams rule ! ?k"
    by (simp add: sampledTeam_def)
  moreover have "fst (selectTeamMembers prctx (Teams rule) r)
             = Ret (case TeamMembers prctx (Teams rule ! ?k) of
                      (ms, None) \<Rightarrow> (ms, None)
                    | (ms, Some err) \<Rightarrow>
                        ([], Some (Wrap err (''failed to get member listing for team ''
                                               @ Teams rule ! ?k))))"
    by (simp add: selectTeamMembers_nonempty [OF teams] split: prod.splits option.splits)
  ultimately show "\<exists>k < length (Teams rule).
         Intn (length (Teams rule)) r = (Ret k, r\<lparr>pos := pos r + 1\<rparr>)
         \<and> sampledTeam rule r = Teams rule ! k
         \<and> fst (selectTeamMembers prctx (Teams rule) r)
             = Ret (case TeamMembers prctx (Teams rule ! k) of
                      (ms, None) \<Rightarrow> (ms, None)
                    | (ms, Some err) \<Rightarrow>
                        ([], Some (Wrap err (''failed to get member listing for team ''
                                               @ Teams rule ! k))))"
    by blast
next
  assume orgs: "Organizations rule \<noteq> []"
  let ?r1 = "if Teams rule = [] then r else r\<lparr>pos := pos r + 1\<rparr>"
  let ?k = "src ?r1 (pos ?r1) mod length (Organizations rule)"
  have "?k < length (Organizations rule)"
    using orgs by simp
  moreover have "Intn (length (Organizations rule)) ?r1
      = (Ret ?k, r\<lparr>pos := (if Teams rule = [] then pos r else pos r + 1) + 1\<rparr>)"
    using orgs by (simp add: Intn_def)
  moreover have "sampledOrg rule r = Organizations rule ! ?k"
    by (simp add: sampledOrg_def)
  moreover have "fst (selectOrgMembers prctx (Organizations rule) ?r1)
             = Ret (case OrganizationMembers prctx (Organizations rule ! ?k) of
                      (ms, None) \<Rightarrow> (ms, None)
                    | (ms, Some err) \<Rightarrow>
                        ([], Some (Wrap err (''failed to get member listing for org ''
                                               @ Organizations rule ! ?k))))"
    by (simp add: selectOrgMembers_nonempty [OF orgs] split: prod.splits option.splits)
  ultimately show "\<exists>k < length (Organizations rule).
         Intn (length (Organizations rule)) ?r1
           = (Ret k, r\<lparr>pos := (if Teams rule = [] then pos r else pos r + 1) + 1\<rparr>)
         \<and> sampledOrg rule r = Organizations rule ! k
         \<and> fst (selectOrgMembers prctx (Organizations rule) ?r1)
             = Ret (case OrganizationMembers prctx (Organizations rule ! k) of
                      (ms, None) \<Rightarrow> (ms, None)
                    | (ms, Some err) \<Rightarrow>
                        ([], Some (Wrap err (''failed to get member listing for org ''
                                               @ Organizations rule ! k))))"
    by blast
next
  assume run: "candidatesForLeaf ords prctx (Result st err rule cs) r lg = (Ret (l, None), r1, lg1)"
  from candidates_final(1) [OF run, of ord'] candidates_final(2,3) [OF run]
  show "set l = finalCandidates ord' prctx rule r" and "distinct l"
    and "pos r1 = pos r + (if Teams rule = [] then 0 else 1)
                          + (if Organizations rule = [] then 0 else 1)"
    by simp_all
next
  assume run: "requestersForLeaf ords prctx (Result st err rule cs) r lg = (Ret (sel, None), r2, lg2)"
  from requesters_final(1) [OF run, of ord']
  show "set sel \<subseteq> finalCandidates ord' prctx rule r" by simp
  assume "int (card (finalCandidates ord' prctx rule r)) \<le> RequiredCount rule"
  with requesters_final(3) [OF run refl, of ord']
  show "set sel = finalCandidates ord' prctx rule r" by simp
next
  assume run: "FindRandomRequesters ords prctx (Result StatusPending None rule []) r lg
         = (Ret (out, None), r3, lg3)"
  let ?leaf = "Result StatusPending None rule []"
  obtain x r' lg' where body: "requestersForLeaf ords prctx ?leaf r lg = (x, r', lg')"
    by (cases "requestersForLeaf ords prctx ?leaf r lg")
  from run body have "x = Ret (out, None)"
    by (auto simp: FindRandomRequesters_def split: res.splits option.splits)
  with body have sampled: "requestersForLeaf ords prctx ?leaf r lg = (Ret (out, None), r', lg')"
    by simp
  from requesters_final(1) [OF sampled, of ord']
  show "set out \<subseteq> finalCandidates ord' prctx rule r" by simp
  assume "int (card (finalCandidates ord' prctx rule r)) \<le> RequiredCount rule"
  with requesters_final(3) [OF sampled refl, of ord']
  show "set out = finalCandidates ord' prctx rule r" by simp
next
  fix n j m :: nat
  assume j: "j < n"
  then have "{x. x < m * n \<and> fst (Intn n (r\<lparr>src := (\<lambda>i. x)\<rparr>)) = Ret j}
      = {x. x < m * n \<and> x mod n = j}"
    by (auto simp: Intn_def)
  with card_residue [OF j, of m]
  show "card {x. x < m * n \<and> fst (Intn n (r\<lparr>src := (\<lambda>i. x)\<rparr>)) = Ret j} = m"
    by simp
next
  assume "distinct (Teams rule)"
  then show "\<forall>t \<in> set (Teams rule). \<forall>m.
      card {x. x < m * length (Teams rule) \<and> sampledTeam rule (r\<lparr>src := (\<lambda>i. x)\<rparr>) = t} = m"
    by (simp add: sampledTeam_def card_nth_residue)
next
  assume "distinct (Organizations rule)"
  then show "\<forall>t \<in> set (Organizations rule). \<forall>m.
      card {x. x < m * length (Organizations rule)
               \<and> sampledOrg rule (r\<lparr>src := (\<lambda>i. x)\<rparr>) = t} = m"
    by (simp add: sampledOrg_def card_nth_residue)
qed

theorem one_team_one_org_sampled_witness:
  "Teams teamsRule \<noteq> [] \<and> Organizations teamsRule \<noteq> []
   \<and> distinct (Teams teamsRule) \<and> ''o/t2'' \<in> set (Teams teamsRule)
   \<and> distinct (Organizations teamsRule) \<and> ''o'' \<in> set (Organizations teamsRule)
   \<and> sampledTeam teamsRule (countRand\<lparr>pos := 1\<rparr>) = ''o/t2''
   \<and> sampledOrg teamsRule (countRand\<lparr>pos := 1\<rparr>) = ''o''
   \<and> candidatesForLeaf keyOrders teamContext (pendingLeaf teamsRule) (countRand\<lparr>pos := 1\<rparr>) []
       = (Ret ([''z''], None), countRand\<lparr>pos := 3\<rparr>, [])
   \<and> set [''z''] = finalCandidates keyOrder teamContext teamsRule (countRand\<lparr>pos := 1\<rparr>)
   \<and> fst (FindRandomRequesters keyOrders teamContext (pendingLeaf teamsRule)
            (countRand\<lparr>pos := 1\<rparr>) []) = Ret ([''z''], None)
   \<and> fst (TeamMembers teamContext ''o/t1'') = [''y'']
   \<and> ''y'' \<in> fst ` set (fst (RepositoryCollaborators teamContext))
   \<and> ''y'' \<notin> finalCandidates keyOrder teamContext teamsRule (countRand\<lparr>pos := 1\<rparr>)"
proof -
  let ?r = "countRand\<lparr>pos := 1\<rparr>"
  have t: "Teams teamsRule \<noteq> []" and o: "Organizations teamsRule \<noteq> []"
    and dt: "distinct (Teams teamsRule)" and mt: "''o/t2'' \<in> set (Teams teamsRule)"
    and dorg: "distinct (Organizations teamsRule)" and mo: "''o'' \<in> set (Organizations teamsRule)"
    by (simp_all add: teamsRule_def)
  have st: "sampledTeam teamsRule ?r = ''o/t2''" and so: "sampledOrg teamsRule ?r = ''o''"
    by (simp_all add: example_defs)
  have c: "candidatesForLeaf keyOrders teamContext (Result StatusPending None teamsRule []) ?r []
       = (Ret ([''z''], None), countRand\<lparr>pos := 3\<rparr>, [])"
    by (simp add: model_defs example_defs Let_def)
  have f: "fst (FindRandomRequesters keyOrders teamContext (pendingLeaf teamsRule) ?r [])
      = Ret ([''z''], None)"
    by (simp add: model_defs example_defs Let_def)
  have m: "fst (TeamMembers teamContext ''o/t1'') = [''y'']"
    and k: "''y'' \<in> fst ` set (fst (RepositoryCollaborators teamContext))"
    by (simp_all add: example_defs)
  have final: "set [''z''] = finalCandidates keyOrder teamContext teamsRule ?r"
    using one_team_one_org_sampled [where rule = teamsRule and r = ?r and prctx = teamContext
      and ords = keyOrders and st = StatusPending and err = None and cs = "[]" and lg = "[]"
      and l = "[''z'']" and ?r1.0 = "countRand\<lparr>pos := 3\<rparr>" and ?lg1.0 = "[]"
      and ord' = keyOrder, THEN conjunct2, THEN conjunct2, THEN conjunct1, THEN mp, OF c,
      THEN conjunct1] .
  have "''y'' \<notin> set [''z'']"
    by simp
  then have notin: "''y'' \<notin> finalCandidates keyOrder teamContext teamsRule ?r"
    unfolding final .
  have c': "candidatesForLeaf keyOrders teamContext (pendingLeaf teamsRule) ?r []
       = (Ret ([''z''], None), countRand\<lparr>pos := 3\<rparr>, [])"
    unfolding pendingLeaf_def by (rule c)
  show ?thesis
    using t o dt mt dorg mo st so c' final f m k notin by (intro conjI)
qed

subsection \<open>Lookup failures\<close>

text \<open>
  C7, as stated, fails when the rule also asks for admins: the collaborator listing
  succeeds, the lookup of the one sampled team fails, and the aggregation still fails,
  because the admin selection fails (here on an unknown scope).
\<close>

theorem team_failure_then_admin_failure:
  "Teams (adminsRule (AdminScopeOther ''root'')) = [''o/t'']
   \<and> snd (TeamMembers orgContext ''o/t'') = Some (Error ''not found'')
   \<and> snd (RepositoryCollaborators orgContext) = None
   \<and> fst (candidatesForLeaf keyOrders orgContext
             (pendingLeaf (adminsRule (AdminScopeOther ''root''))) constRand [])
       = Ret ([], Some (Wrap (Error ''Unknown AdminScope root, ignoring'')
                          ''Unable to select admins''))"
  by (simp add: model_defs example_defs)

text \<open>
  C7, amended: a failure of the membership lookup for the one sampled team (or
  organization) is not fatal: the error is logged as a warning, that source adds no
  member, and the aggregation for the leaf continues and succeeds using only the other
  sources -- it returns the candidates it returns for the same rule without teams (or
  without organizations) -- provided the repository collaborator listing succeeds and,
  when \<open>rule.admins\<close> is true, the admin selection succeeds.
\<close>

theorem lookup_failure_not_fatal:
  assumes "snd (RepositoryCollaborators prctx) = None"
    and "Admins rule \<longrightarrow> snd (selectAdmins ord' prctx (AdminScope rule)) = None"
  shows "(Teams rule \<noteq> [] \<and> snd (TeamMembers prctx (sampledTeam rule r)) = Some e \<longrightarrow>
      (\<exists>l r1 lg1.
         candidatesForLeaf ords prctx (Result st err rule cs) r lg = (Ret (l, None), r1, lg1)
         \<and> (Wrap e (''failed to get member listing for team '' @ sampledTeam rule r),
             ''Unable to get member listing for teams, skipping team member selection'')
              \<in> set lg1
         \<and> collectTeamMembers prctx rule allUsers r lg
             = (Ret allUsers, r\<lparr>pos := pos r + 1\<rparr>,
                lg @ [(Wrap e (''failed to get member listing for team '' @ sampledTeam rule r),
                  ''Unable to get member listing for teams, skipping team member selection'')])
         \<and> fst (candidatesForLeaf ords prctx (Result st err (rule\<lparr>Teams := []\<rparr>) cs)
                  (r\<lparr>pos := pos r + 1\<rparr>) lg) = Ret (l, None)))
    \<and> (Organizations rule \<noteq> [] \<and> snd (OrganizationMembers prctx (sampledOrg rule r)) = Some e' \<longrightarrow>
      (\<exists>l r1 lg1.
         candidatesForLeaf ords prctx (Result st err rule cs) r lg = (Ret (l, None), r1, lg1)
         \<and> (Wrap e' (''failed to get member listing for org '' @ sampledOrg rule r),
             ''Unable to get member listing for org, skipping org member selection'')
              \<in> set lg1
         \<and> fst (candidatesForLeaf ords prctx (Result st err (rule\<lparr>Organizations := []\<rparr>) cs) r lg)
             = Ret (l, None)))"
proof -
  obtain l r1 lg1 where
    run: "candidatesForLeaf ords prctx (Result st err rule cs) r lg = (Ret (l, None), r1, lg1)"
    using candidates_succeed [of prctx "Result st err rule cs" ord' ords r lg] assms by auto
  have team: "\<exists>l r1 lg1.
         candidatesForLeaf ords prctx (Result st err rule cs) r lg = (Ret (l, None), r1, lg1)
         \<and> (Wrap e (''failed to get member listing for team '' @ sampledTeam rule r),
             ''Unable to get member listing for teams, skipping team member selection'')
              \<in> set lg1
         \<and> collectTeamMembers prctx rule allUsers r lg
             = (Ret allUsers, r\<lparr>pos := pos r + 1\<rparr>,
                lg @ [(Wrap e (''failed to get member listing for team '' @ sampledTeam rule r),
                  ''Unable to get member listing for teams, skipping team member selection'')])
         \<and> fst (candidatesForLeaf ords prctx (Result st err (rule\<lparr>Teams := []\<rparr>) cs)
                  (r\<lparr>pos := pos r + 1\<rparr>) lg) = Ret (l, None)"
    if teams: "Teams rule \<noteq> []" and fails: "snd (TeamMembers prctx (sampledTeam rule r)) = Some e"
  proof -
    obtain ms where "TeamMembers prctx (sampledTeam rule r) = (ms, Some e)"
      using fails by (cases "TeamMembers prctx (sampledTeam rule r)") simp
    then have "collectTeamMembers prctx rule allUsers r lg
             = (Ret allUsers, r\<lparr>pos := pos r + 1\<rparr>,
                lg @ [(Wrap e (''failed to get member listing for team '' @ sampledTeam rule r),
                  ''Unable to get member listing for teams, skipping team member selection'')])"
      by (simp add: collectTeamMembers_nonempty [OF teams])
    with team_failure [OF teams fails, of ords st err cs lg] run show ?thesis
      by simp
  qed
  have org: "\<exists>l r1 lg1.
         candidatesForLeaf ords prctx (Result st err rule cs) r lg = (Ret (l, None), r1, lg1)
         \<and> (Wrap e' (''failed to get member listing for org '' @ sampledOrg rule r),
             ''Unable to get member listing for org, skipping org member selection'')
              \<in> set lg1
         \<and> fst (candidatesForLeaf ords prctx (Result st err (rule\<lparr>Organizations := []\<rparr>) cs) r lg)
             = Ret (l, None)"
    if orgs: "Organizations rule \<noteq> []"
      and fails: "snd (OrganizationMembers prctx (sampledOrg rule r)) = Some e'"
    using org_failure [OF orgs fails, of ords st err cs lg] run by simp
  from team org show ?thesis by blast
qed

theorem lookup_failure_not_fatal_witness:
  "snd (RepositoryCollaborators orgContext) = None
   \<and> snd (selectAdmins keyOrder orgContext AdminScopeOrg) = None
   \<and> sampledTeam (adminsRule AdminScopeOrg\<lparr>Organizations := [''o'']\<rparr>) constRand = ''o/t''
   \<and> sampledOrg (adminsRule AdminScopeOrg\<lparr>Organizations := [''o'']\<rparr>) constRand = ''o''
   \<and> snd (TeamMembers orgContext ''o/t'') = Some (Error ''not found'')
   \<and> snd (OrganizationMembers orgContext ''o'') = Some (Error ''not found'')
   \<and> (\<exists>r1 lg1.
        candidatesForLeaf keyOrders orgContext
          (pendingLeaf (adminsRule AdminScopeOrg\<lparr>Organizations := [''o'']\<rparr>)) constRand []
          = (Ret ([''y''], None), r1, lg1)
        \<and> (Wrap (Error ''not found'') ''failed to get member listing for team o/t'',
            ''Unable to get member listing for teams, skipping team member selection'') \<in> set lg1
        \<and> (Wrap (Error ''not found'') ''failed to get member listing for org o'',
            ''Unable to get member listing for org, skipping org member selection'') \<in> set lg1)"
proof -
  let ?rule = "adminsRule AdminScopeOrg\<lparr>Organizations := [''o'']\<rparr>"
  have a1: "snd (RepositoryCollaborators orgContext) = None"
    by (simp add: orgContext_def)
  have sel: "snd (selectAdmins keyOrder orgContext AdminScopeOrg) = None"
    by (simp add: model_defs example_defs)
  then have a2: "Admins ?rule \<longrightarrow> snd (selectAdmins keyOrder orgContext (AdminScope ?rule)) = None"
    by (simp add: adminsRule_def)
  have t: "Teams ?rule \<noteq> []" and o: "Organizations ?rule \<noteq> []"
    by (simp_all add: adminsRule_def)
  have st: "sampledTeam ?rule constRand = ''o/t''" and so: "sampledOrg ?rule constRand = ''o''"
    by (simp_all add: sampledTeam_def sampledOrg_def adminsRule_def constRand_def)
  have ft: "snd (TeamMembers orgContext (sampledTeam ?rule constRand)) = Some (Error ''not found'')"
    and fo: "snd (OrganizationMembers orgContext (sampledOrg ?rule constRand))
              = Some (Error ''not found'')"
    by (simp_all add: orgContext_def)
  have run: "candidatesForLeaf keyOrders orgContext (pendingLeaf ?rule) constRand []
      = (Ret ([''y''], None), constRand\<lparr>pos := 2\<rparr>,
         [(Wrap (Error ''not found'') ''failed to get member listing for team o/t'',
           ''Unable to get member listing for teams, skipping team member selection''),
          (Wrap (Error ''not found'') ''failed to get member listing for org o'',
           ''Unable to get member listing for org, skipping org member selection'')])"
    by (simp add: model_defs example_defs Let_def)
  from lookup_failure_not_fatal [OF a1 a2, where r = constRand and e = "Error ''not found''"
      and ords = keyOrders and st = StatusPending and err = None and cs = "[]" and lg = "[]"
      and allUsers = "[]" and e' = "Error ''not found''"] t o ft fo
  have "\<exists>l r1 lg1.
         candidatesForLeaf keyOrders orgContext (Result StatusPending None ?rule []) constRand []
           = (Ret (l, None), r1, lg1)
         \<and> (Wrap (Error ''not found'')
               (''failed to get member listing for team '' @ sampledTeam ?rule constRand),
             ''Unable to get member listing for teams, skipping team member selection'')
              \<in> set lg1"
    by blast
  with run a1 sel st so ft fo show ?thesis
    by (simp add: pendingLeaf_def)
qed

subsection \<open>Fatal errors and empty admin sets\<close>

text \<open>
  A leaf whose aggregation fails stops the loop wherever it stands in the list, unless
  the sampler has given up at an earlier leaf.
\<close>

lemma loop_fatal:
  assumes "leaf \<in> set leaves"
    and "snd (RepositoryCollaborators prctx) \<noteq> None
      \<or> (Admins (ReviewRequestRule leaf)
          \<and> snd (selectAdmins ord' prctx (AdminScope (ReviewRequestRule leaf))) \<noteq> None)"
  shows "(\<exists>e r2 lg2. FindRandomRequesters_loop ords prctx leaves acc r lg
                        = (Ret ([], Some e), r2, lg2))
       \<or> (\<exists>n k r2 lg2. FindRandomRequesters_loop ords prctx leaves acc r lg
                        = (Panic (UnableToSelect n k), r2, lg2))"
  using assms(1)
proof (induction leaves arbitrary: ords acc r lg)
  case Nil
  then show ?case by simp
next
  case (Cons child rest)
  obtain x r1 lg1 where body: "requestersForLeaf ords prctx child r lg = (x, r1, lg1)"
    by (cases "requestersForLeaf ords prctx child r lg")
  show ?case
  proof (cases x)
    case (Panic q)
    with requesters_panic body obtain n k where "q = UnableToSelect n k"
      by blast
    with body Panic show ?thesis by simp
  next
    case (Ret y)
    obtain sel eo where y: "y = (sel, eo)" by (cases y)
    show ?thesis
    proof (cases eo)
      case (Some e)
      with body Ret y show ?thesis by simp
    next
      case None
      have "child \<noteq> leaf"
      proof
        assume "child = leaf"
        with requesters_fatal [OF assms(2), of ords r lg] body Ret y None
        show False by simp
      qed
      with Cons.prems have "leaf \<in> set rest" by simp
      from Cons.IH [OF this, of "\<lambda>k. ords (k + 3)" "acc @ sel" r1 lg1] body Ret y None
      show ?thesis by simp
    qed
  qed
qed

text \<open>
  C8: if, at a leaf reached by the loop, the repository collaborator listing fails, or
  the rule asks for admins and the admin selection fails, then the loop stops at this
  leaf and returns an error and the nil list, whatever the list of reviewers accumulated
  from the earlier leaves: they are dropped. A failed listing is returned wrapped as
  \<open>Unable to list repository collaborators\<close>. So \<open>FindRandomRequesters\<close> returns an error
  and the nil list when the leaves before this one were processed without error, and,
  wherever the leaf stands among the leaves, returns an error and the nil list unless
  the sampler has given up before. An unrecognized \<open>adminScope\<close> makes the admin
  selection fail, with no admins returned.
\<close>

theorem fatal_error_aborts:
  assumes "snd (RepositoryCollaborators prctx) \<noteq> None
      \<or> (Admins (ReviewRequestRule leaf)
          \<and> snd (selectAdmins ord' prctx (AdminScope (ReviewRequestRule leaf))) \<noteq> None)"
  shows "(\<exists>e r2 lg2. FindRandomRequesters_loop ords prctx (leaf # later) requested r lg
                       = (Ret ([], Some e), r2, lg2))
    \<and> (\<forall>e0. snd (RepositoryCollaborators prctx) = Some e0 \<longrightarrow>
          (\<exists>r2 lg2. FindRandomRequesters_loop ords prctx (leaf # later) requested r lg
             = (Ret ([], Some (Wrap e0 ''Unable to list repository collaborators'')), r2, lg2)))
    \<and> (findLeafChildren result = earlier @ leaf # later
        \<and> FindRandomRequesters_loop ords prctx earlier [] r0 lg0 = (Ret (requested, None), r, lg) \<longrightarrow>
          (\<exists>e r2 lg2. FindRandomRequesters ords prctx result r0 lg0 = (Ret ([], Some e), r2, lg2)))
    \<and> (leaf \<in> set (findLeafChildren result) \<longrightarrow>
          (\<exists>e r2 lg2. FindRandomRequesters ords prctx result r0 lg0 = (Ret ([], Some e), r2, lg2))
          \<or> (\<exists>n k r2 lg2. FindRandomRequesters ords prctx result r0 lg0
                            = (Panic (UnableToSelect n k), r2, lg2)))
    \<and> (\<forall>s. selectAdmins ord' prctx (AdminScopeOther s)
              = ([], Some (Error (''Unknown AdminScope '' @ s @ '', ignoring''))))"
proof (intro conjI allI impI)
  obtain e r2 lg2 where
    body: "requestersForLeaf ords prctx leaf r lg = (Ret ([], Some e), r2, lg2)"
    using requesters_fatal [OF assms, of ords r lg] by blast
  then have "FindRandomRequesters_loop ords prctx (leaf # later) requested r lg
      = (Ret ([], Some e), r2, lg2)"
    by simp
  then show "\<exists>e r2 lg2. FindRandomRequesters_loop ords prctx (leaf # later) requested r lg
                       = (Ret ([], Some e), r2, lg2)"
    by blast
next
  fix e0
  assume listing: "snd (RepositoryCollaborators prctx) = Some e0"
  have "\<exists>r2 lg2. candidatesForLeaf ords prctx leaf r lg
      = (Ret ([], Some (Wrap e0 ''Unable to list repository collaborators'')), r2, lg2)"
  proof (cases rule: candidatesForLeaf_cases [where prctx = prctx and ords = ords
        and child = leaf and r = r and lg = lg and ord' = ord'])
    case (listing e r1 lg1)
    with \<open>snd (RepositoryCollaborators prctx) = Some e0\<close> show ?thesis by simp
  next
    case (admins e r1 lg1)
    with listing show ?thesis by simp
  next
    case (candidates l r1 lg1)
    with listing show ?thesis by simp
  qed
  then obtain r2 lg2 where "candidatesForLeaf ords prctx leaf r lg
      = (Ret ([], Some (Wrap e0 ''Unable to list repository collaborators'')), r2, lg2)"
    by blast
  then have "FindRandomRequesters_loop ords prctx (leaf # later) requested r lg
      = (Ret ([], Some (Wrap e0 ''Unable to list repository collaborators'')), r2, lg2)"
    by (simp add: requestersForLeaf_def)
  then show "\<exists>r2 lg2. FindRandomRequesters_loop ords prctx (leaf # later) requested r lg
      = (Ret ([], Some (Wrap e0 ''Unable to list repository collaborators'')), r2, lg2)"
    by blast
next
  assume "findLeafChildren result = earlier @ leaf # later
        \<and> FindRandomRequesters_loop ords prctx earlier [] r0 lg0 = (Ret (requested, None), r, lg)"
  then have leaves: "findLeafChildren result = earlier @ leaf # later"
    and before: "FindRandomRequesters_loop ords prctx earlier [] r0 lg0 = (Ret (requested, None), r, lg)"
    by simp_all
  let ?ords = "\<lambda>k. ords (k + 3 * length earlier)"
  obtain e r2 lg2 where
    body: "requestersForLeaf ?ords prctx leaf r lg = (Ret ([], Some e), r2, lg2)"
    using requesters_fatal [OF assms, of ?ords r lg] by blast
  have "FindRandomRequesters ords prctx result r0 lg0
      = FindRandomRequesters_loop ?ords prctx (leaf # later) requested r lg"
    using loop_append [OF before, of "leaf # later"] leaves
    by (simp add: FindRandomRequesters_def)
  also have "\<dots> = (Ret ([], Some e), r2, lg2)"
    using body by simp
  finally show "\<exists>e r2 lg2. FindRandomRequesters ords prctx result r0 lg0 = (Ret ([], Some e), r2, lg2)"
    by blast
next
  assume "leaf \<in> set (findLeafChildren result)"
  from loop_fatal [OF this assms, of ords "[]" r0 lg0]
  show "(\<exists>e r2 lg2. FindRandomRequesters ords prctx result r0 lg0 = (Ret ([], Some e), r2, lg2))
          \<or> (\<exists>n k r2 lg2. FindRandomRequesters ords prctx result r0 lg0
                            = (Panic (UnableToSelect n k), r2, lg2))"
    by (simp add: FindRandomRequesters_def)
next
  fix s
  show "selectAdmins ord' prctx (AdminScopeOther s)
              = ([], Some (Error (''Unknown AdminScope '' @ s @ '', ignoring'')))"
    by (simp add: selectAdmins_def)
qed

theorem fatal_error_aborts_witness:
  "snd (RepositoryCollaborators noListingContext) = Some (Error ''unavailable'')
   \<and> FindRandomRequesters_loop keyOrders noListingContext [pendingLeaf (usersRule [''y''] 1)]
         [''a''] constRand []
     = (Ret ([], Some (Wrap (Error ''unavailable'') ''Unable to list repository collaborators'')),
        constRand, [])
   \<and> findLeafChildren (twoLeaves (usersRule [''y''] 1) (adminsRule (AdminScopeOther ''root'')))
     = [pendingLeaf (usersRule [''y''] 1)] @ pendingLeaf (adminsRule (AdminScopeOther ''root'')) # []
   \<and> pendingLeaf (adminsRule (AdminScopeOther ''root''))
       \<in> set (findLeafChildren (twoLeaves (usersRule [''y''] 1) (adminsRule (AdminScopeOther ''root''))))
   \<and> FindRandomRequesters_loop keyOrders orgContext [pendingLeaf (usersRule [''y''] 1)] [] constRand []
     = (Ret ([''y''], None), constRand, [])
   \<and> snd (selectAdmins keyOrder orgContext (AdminScopeOther ''root'')) \<noteq> None
   \<and> FindRandomRequesters keyOrders orgContext
        (twoLeaves (usersRule [''y''] 1) (adminsRule (AdminScopeOther ''root''))) constRand []
     = (Ret ([], Some (Wrap (Error ''Unknown AdminScope root, ignoring'') ''Unable to select admins'')),
        constRand\<lparr>pos := 1\<rparr>,
        [(Wrap (Error ''not found'') ''failed to get member listing for team o/t'',
          ''Unable to get member listing for teams, skipping team member selection'')])"
proof -
  let ?leaf1 = "pendingLeaf (usersRule [''y''] 1)"
  let ?leaf2 = "pendingLeaf (adminsRule (AdminScopeOther ''root''))"
  let ?root = "twoLeaves (usersRule [''y''] 1) (adminsRule (AdminScopeOther ''root''))"
  have listing: "snd (RepositoryCollaborators noListingContext) = Some (Error ''unavailable'')"
    by (simp add: noListingContext_def)
  then have fatal1: "snd (RepositoryCollaborators noListingContext) \<noteq> None
      \<or> (Admins (ReviewRequestRule ?leaf1)
          \<and> snd (selectAdmins keyOrder noListingContext (AdminScope (ReviewRequestRule ?leaf1))) \<noteq> None)"
    by simp
  have "\<exists>r2 lg2. FindRandomRequesters_loop keyOrders noListingContext (?leaf1 # []) [''a''] constRand []
      = (Ret ([], Some (Wrap (Error ''unavailable'') ''Unable to list repository collaborators'')),
         r2, lg2)"
    using fatal_error_aborts [OF fatal1, where ords = keyOrders and later = "[]"
        and requested = "[''a'']" and r = constRand and lg = "[]",
        THEN conjunct2, THEN conjunct1, THEN spec, THEN mp, OF listing] .
  moreover have "snd (FindRandomRequesters_loop keyOrders noListingContext [?leaf1] [''a''] constRand [])
      = (constRand, [])"
    by (simp add: model_defs example_defs Let_def)
  ultimately have run1: "FindRandomRequesters_loop keyOrders noListingContext [?leaf1] [''a''] constRand []
     = (Ret ([], Some (Wrap (Error ''unavailable'') ''Unable to list repository collaborators'')),
        constRand, [])"
    by auto
  have leaves: "findLeafChildren ?root = [?leaf1] @ ?leaf2 # []"
    by (simp add: twoLeaves_def pendingLeaf_def)
  then have mem: "?leaf2 \<in> set (findLeafChildren ?root)"
    by simp
  have first: "FindRandomRequesters_loop keyOrders orgContext [?leaf1] [] constRand []
     = (Ret ([''y''], None), constRand, [])"
    by (simp add: model_defs example_defs Let_def)
  have scope: "snd (selectAdmins keyOrder orgContext (AdminScopeOther ''root'')) \<noteq> None"
    by (simp add: selectAdmins_def)
  then have fatal2: "snd (RepositoryCollaborators orgContext) \<noteq> None
      \<or> (Admins (ReviewRequestRule ?leaf2)
          \<and> snd (selectAdmins keyOrder orgContext (AdminScope (ReviewRequestRule ?leaf2))) \<noteq> None)"
    by (simp add: pendingLeaf_def adminsRule_def)
  have "\<exists>e r2 lg2. FindRandomRequesters keyOrders orgContext ?root constRand []
      = (Ret ([], Some e), r2, lg2)"
    using fatal_error_aborts [OF fatal2, where ords = keyOrders and later = "[]"
        and requested = "[''y'']" and r = constRand and lg = "[]" and result = ?root
        and earlier = "[?leaf1]" and ?r0.0 = constRand and ?lg0.0 = "[]",
        THEN conjunct2, THEN conjunct2, THEN conjunct1, THEN mp, OF conjI, OF leaves first] .
  have run: "FindRandomRequesters keyOrders orgContext ?root constRand []
     = (Ret ([], Some (Wrap (Error ''Unknown AdminScope root, ignoring'') ''Unable to select admins'')),
        constRand\<lparr>pos := 1\<rparr>,
        [(Wrap (Error ''not found'') ''failed to get member listing for team o/t'',
          ''Unable to get member listing for teams, skipping team member selection'')])"
    by (simp add: model_defs example_defs Let_def)
  show ?thesis
    using listing run1 leaves mem first scope run by (intro conjI)
qed

text \<open>
  C10: if the rule asks for admins and the admin selection succeeds with no admin at all,
  and the collaborator listing succeeds, nothing fails: the leaf has no candidate, it
  adds no reviewer whatever its \<open>requiredCount\<close>, and the loop goes on with the
  remaining leaves.
\<close>

theorem empty_admins_no_reviewers:
  assumes "Admins (ReviewRequestRule leaf)"
    and "selectAdmins ord' prctx (AdminScope (ReviewRequestRule leaf)) = ([], None)"
    and "snd (RepositoryCollaborators prctx) = None"
  shows "\<exists>r1 lg1.
      candidatesForLeaf ords prctx leaf r lg = (Ret ([], None), r1, lg1)
      \<and> requestersForLeaf ords prctx leaf r lg = (Ret ([], None), r1, lg1)
      \<and> FindRandomRequesters_loop ords prctx (leaf # rest) requested r lg
          = FindRandomRequesters_loop (\<lambda>k. ords (k + 3)) prctx rest requested r1 lg1"
proof (cases rule: candidatesForLeaf_cases [where prctx = prctx and ords = ords
      and child = leaf and r = r and lg = lg and ord' = ord'])
  case (listing e r1 lg1)
  with assms show ?thesis by simp
next
  case (admins e r1 lg1)
  with assms show ?thesis by simp
next
  case (candidates l r1 lg1)
  from assms(1,2) have "finalCandidates ord' prctx (ReviewRequestRule leaf) r = {}"
    by (simp add: finalCandidates_def eligible_def)
  with candidates(4) have "l = []"
    by simp
  with candidates(3) have c: "candidatesForLeaf ords prctx leaf r lg = (Ret ([], None), r1, lg1)"
    by simp
  then have b: "requestersForLeaf ords prctx leaf r lg = (Ret ([], None), r1, lg1)"
    by (simp add: requestersForLeaf_def selectRandomUsers_Nil)
  then have "FindRandomRequesters_loop ords prctx (leaf # rest) requested r lg
          = FindRandomRequesters_loop (\<lambda>k. ords (k + 3)) prctx rest requested r1 lg1"
    by simp
  with c b show ?thesis by blast
qed

theorem empty_admins_no_reviewers_witness:
  "Admins (adminsRule AdminScopeTeam)
   \<and> selectAdmins keyOrder orgContext AdminScopeTeam = ([], None)
   \<and> selectAdmins keyOrder orgContext AdminScopeUser = ([], None)
   \<and> snd (RepositoryCollaborators orgContext) = None
   \<and> fst (requestersForLeaf keyOrders orgContext (pendingLeaf (adminsRule AdminScopeTeam)) constRand [])
       = Ret ([], None)
   \<and> fst (FindRandomRequesters keyOrders orgContext
        (twoLeaves (adminsRule AdminScopeTeam) (usersRule [''y''] 1)) constRand [])
       = Ret ([''y''], None)"
proof -
  let ?leaf = "pendingLeaf (adminsRule AdminScopeTeam)"
  have a: "Admins (ReviewRequestRule ?leaf)"
    by (simp add: pendingLeaf_def adminsRule_def)
  then have a': "Admins (adminsRule AdminScopeTeam)"
    by (simp add: pendingLeaf_def)
  have s: "selectAdmins keyOrder orgContext AdminScopeTeam = ([], None)"
    and u: "selectAdmins keyOrder orgContext AdminScopeUser = ([], None)"
    by (simp_all add: model_defs example_defs)
  from s have s': "selectAdmins keyOrder orgContext (AdminScope (ReviewRequestRule ?leaf)) = ([], None)"
    by (simp add: pendingLeaf_def adminsRule_def)
  have c: "snd (RepositoryCollaborators orgContext) = None"
    by (simp add: orgContext_def)
  have run: "fst (FindRandomRequesters keyOrders orgContext
        (twoLeaves (adminsRule AdminScopeTeam) (usersRule [''y''] 1)) constRand [])
       = Ret ([''y''], None)"
    by (simp add: model_defs example_defs Let_def)
  from empty_admins_no_reviewers [OF a s' c, where ords = keyOrders and r = constRand
      and lg = "[]" and rest = "[]" and requested = "[]"]
  have b: "fst (requestersForLeaf keyOrders orgContext ?leaf constRand []) = Ret ([], None)"
    by auto
  show ?thesis
    using a' s u c b run by (intro conjI)
qed

subsection \<open>Ranges in different orders\<close>

text \<open>
  Two leaves with the same two users, all of them requested: the range over the users of
  the first leaf visits them in one order and that of the second leaf in the other.
\<close>

lemma ranges_ordered_afresh:
  "fst (FindRandomRequesters mixedOrders orgContext
          (twoLeaves (usersRule [''y'', ''z''] 2) (usersRule [''y'', ''z''] 2)) constRand [])
     = Ret ([''y'', ''z'', ''z'', ''y''], None)"
  by (simp add: model_defs example_defs Let_def insert_commute)


end
